theory Spec2Isabelle
  imports Complex_Main "HOL-Library.Char_ord" "HOL-Library.List_Lexorder"
    "HOL-Library.Product_Lexorder" "HOL-Library.Multiset" "HOL-Library.Sublist"
    "HOL-Library.Log_Nat"
begin

section \<open>Python values, errors and floating-point arithmetic\<close>

text \<open>
  The dashboard script \<^verbatim>\<open>dashboard.py\<close> is one straight-line Streamlit page. Its own
  computations are the loops and expressions between the calls into pm4py and pandas;
  those are embedded here definition by definition. Numbers are rationals (type \<open>rat\<close>).
  A timestamp is a number of seconds, and the difference of two timestamps followed by
  \<^verbatim>\<open>total_seconds()\<close> is their difference; sums of durations are taken exactly, as they
  are for whole seconds. The quotients and products that end in a figure of the page are
  binary64 operations, modelled by \<open>fl\<close> below. The means of lines 71 and 165 stand under
  their names as exact quotients and are rounded to a float where they are divided by
  3600 (\<open>float_div\<close> rounds its operands first).
\<close>

datatype error = KeyError string | ZeroDivisionError

text \<open>Sequencing of two steps of which the first may raise.\<close>

definition and_then :: "error + 'a \<Rightarrow> ('a \<Rightarrow> error + 'b) \<Rightarrow> error + 'b" where
  "and_then m f = (case m of Inl e \<Rightarrow> Inl e | Inr x \<Rightarrow> f x)"

text \<open>Rounding to the nearest integer, an exact tie going to the even neighbour.\<close>

definition round_half_even :: "rat \<Rightarrow> int" where
  "round_half_even x =
     (let f = \<lfloor>x\<rfloor>; d = x - of_int f in
      if d < 1 / 2 then f
      else if 1 / 2 < d then f + 1
      else if even f then f else f + 1)"

text \<open>
  The binary64 float nearest to a rational: for \<open>x\<close> between \<open>2\<^sup>e\<close> and \<open>2\<^sup>e\<^sup>+\<^sup>1\<close> the floats
  are the multiples of \<open>2\<^sup>e\<^sup>-\<^sup>5\<^sup>2\<close>, and the nearest is taken, a tie going to the even
  multiple. The exponent is found from the bit lengths of numerator and denominator. The
  limits of the exponent range of binary64 (below \<open>2\<^sup>-\<^sup>1\<^sup>0\<^sup>2\<^sup>2\<close>, above \<open>2\<^sup>1\<^sup>0\<^sup>2\<^sup>4\<close>) are not
  modelled; no quantity of the dashboard comes near them.
\<close>

definition float_exponent :: "rat \<Rightarrow> int" where
  "float_exponent x =
     (let (a, b) = quotient_of \<bar>x\<bar>; d = bitlen a - bitlen b
      in if 2 powi d \<le> \<bar>x\<bar> then d else d - 1)"

definition fl :: "rat \<Rightarrow> rat" where
  "fl x =
     (if x = 0 then 0
      else let ulp = 2 powi (float_exponent x - 52)
           in of_int (round_half_even (x / ulp)) * ulp)"

text \<open>
  Division and multiplication of floats, \<^verbatim>\<open>a / b\<close> and \<^verbatim>\<open>a * b\<close>: the operands are floats (an
  \<^verbatim>\<open>int\<close> operand is converted), and the exact result is rounded to the nearest float. The
  divisor is not zero where \<open>float_div\<close> is used.
\<close>

definition float_div :: "rat \<Rightarrow> rat \<Rightarrow> rat" where
  "float_div a b = fl (fl a / fl b)"

definition float_mul :: "rat \<Rightarrow> rat \<Rightarrow> rat" where
  "float_mul a b = fl (fl a * fl b)"

text \<open>
  True division \<^verbatim>\<open>a / b\<close> of two \<^verbatim>\<open>int\<close>s, which raises when \<open>b\<close> is zero and otherwise
  gives the float nearest to the exact quotient.
\<close>

definition py_div :: "rat \<Rightarrow> rat \<Rightarrow> error + rat" where
  "py_div a b = (if b = 0 then Inl ZeroDivisionError else Inr (fl (a / b)))"

text \<open>
  \<^verbatim>\<open>round(x, 2)\<close> of a float: Python rounds the exact binary value of the float to the
  nearest multiple of 1/100, a tie going to the even neighbour, and returns the float
  nearest to that decimal. The result is identified with the decimal, which is what the
  float prints as (for every magnitude below \<open>10\<^sup>1\<^sup>3\<close>).
\<close>

definition py_round2 :: "rat \<Rightarrow> rat" where
  "py_round2 x = of_int (round_half_even (fl x * 100)) / 100"

section \<open>Bottleneck analysis (dashboard.py, lines 203--233)\<close>

text \<open>
  The values that may stand in the performance DFG returned by pm4py: the script tests
  them with \<^verbatim>\<open>isinstance\<close>, so the model keeps Python's dynamic types. \<open>PyNaN\<close> is the
  float that is not a number; a \<open>bool\<close> is an instance of \<open>int\<close> in Python.
\<close>

datatype pyval =
    PyNone
  | PyBool bool
  | PyInt int
  | PyFloat rat
  | PyNaN
  | PyStr string
  | PyDict "(string \<times> pyval) list"

record perf_row =
  From :: string
  To :: string
  Avg_Time_hours :: rat

text \<open>\<^verbatim>\<open>time_info.get('mean', 0)\<close>\<close>

definition dict_get :: "(string \<times> pyval) list \<Rightarrow> string \<Rightarrow> pyval \<Rightarrow> pyval" where
  "dict_get d k dflt = (case map_of d k of Some v \<Rightarrow> v | None \<Rightarrow> dflt)"

text \<open>Lines 206--209: the mean of a statistics dictionary, or the bare value.\<close>

fun avg_time_of :: "pyval \<Rightarrow> pyval" where
  "avg_time_of (PyDict d) = dict_get d ''mean'' (PyInt 0)"
| "avg_time_of time_info = time_info"

text \<open>\<^verbatim>\<open>isinstance(avg_time, (int, float))\<close>\<close>

fun is_int_or_float :: "pyval \<Rightarrow> bool" where
  "is_int_or_float (PyBool b) = True"
| "is_int_or_float (PyInt n) = True"
| "is_int_or_float (PyFloat x) = True"
| "is_int_or_float PyNaN = True"
| "is_int_or_float v = False"

text \<open>
  \<^verbatim>\<open>avg_time > 0\<close>, which the script evaluates only after the \<^verbatim>\<open>isinstance\<close> test has
  succeeded (\<^verbatim>\<open>and\<close> is short-circuit), so the last equation is never reached.
\<close>

fun gt_zero :: "pyval \<Rightarrow> bool" where
  "gt_zero (PyBool b) = b"
| "gt_zero (PyInt n) = (0 < n)"
| "gt_zero (PyFloat x) = (0 < x)"
| "gt_zero PyNaN = False"
| "gt_zero v = False"

text \<open>
  The number that \<^verbatim>\<open>avg_time / 3600\<close> divides: the value of an \<^verbatim>\<open>int\<close>, a \<^verbatim>\<open>bool\<close> or a
  finite \<^verbatim>\<open>float\<close>.
\<close>

fun as_float :: "pyval \<Rightarrow> rat" where
  "as_float (PyBool b) = (if b then 1 else 0)"
| "as_float (PyInt n) = of_int n"
| "as_float (PyFloat x) = x"
| "as_float v = 0"

text \<open>
  \<^verbatim>\<open>avg_time / d\<close> for an \<^verbatim>\<open>int\<close> \<open>d\<close> (line 216). When \<^verbatim>\<open>avg_time\<close> is a \<^verbatim>\<open>float\<close>, \<open>d\<close> is
  converted and the quotient of the two floats is rounded. When it is an \<^verbatim>\<open>int\<close> (a
  \<^verbatim>\<open>bool\<close> is one), the true division of two \<^verbatim>\<open>int\<close>s gives the float nearest to their
  exact quotient.
\<close>

fun truediv :: "pyval \<Rightarrow> rat \<Rightarrow> rat" where
  "truediv (PyFloat x) d = float_div x d"
| "truediv v d = fl (as_float v / d)"

text \<open>
  Lines 203--217. \<open>mean_times\<close> is a Python dictionary, whose keys are pairs of activity
  labels; the loop walks it in insertion order, so it is an association list here.
\<close>

fun performance_data :: "((string \<times> string) \<times> pyval) list \<Rightarrow> perf_row list" where
  "performance_data [] = []"
| "performance_data ((key, time_info) # rest) =
     (let avg_time = avg_time_of time_info in
      if is_int_or_float avg_time \<and> gt_zero avg_time
      then \<lparr>From = fst key, To = snd key,
             Avg_Time_hours = py_round2 (truediv avg_time 3600)\<rparr> #
           performance_data rest
      else performance_data rest)"

text \<open>
  \<^verbatim>\<open>DataFrame.sort_values(col, ascending=False)\<close> of pandas, called without a \<^verbatim>\<open>kind\<close>. pandas
  hands the column of keys, reversed, to numpy's \<^verbatim>\<open>argsort\<close>, maps the indices it returns
  back to the positions before the reversal, reverses them, and takes the rows at these
  indices. The default \<^verbatim>\<open>argsort\<close> is not stable and the order it gives to equal keys
  depends on the numpy build, so \<open>argsort\<close> is a parameter of the model. All that is known of
  it is \<open>is_argsort\<close>: it returns the indices of its argument, each once, in an order in
  which the keys ascend.
\<close>

definition is_argsort :: "('k::linorder list \<Rightarrow> nat list) \<Rightarrow> bool" where
  "is_argsort argsort =
     (\<forall>keys. mset (argsort keys) = mset [0..<length keys] \<and>
             sorted (map (\<lambda>i. keys ! i) (argsort keys)))"

definition nargsort_desc :: "('k list \<Rightarrow> nat list) \<Rightarrow> 'k list \<Rightarrow> nat list" where
  "nargsort_desc argsort keys =
     rev (map (\<lambda>j. rev [0..<length keys] ! j) (argsort (rev keys)))"

definition sort_values_desc ::
  "('k list \<Rightarrow> nat list) \<Rightarrow> ('a \<Rightarrow> 'k) \<Rightarrow> 'a list \<Rightarrow> 'a list" where
  "sort_values_desc argsort col rows =
     map (\<lambda>i. rows ! i) (nargsort_desc argsort (map col rows))"

text \<open>
  One routine that satisfies \<open>is_argsort\<close>: the one that leaves equal keys in the order
  they come in. It serves to run the model on examples.
\<close>

definition stable_argsort :: "'k::linorder list \<Rightarrow> nat list" where
  "stable_argsort keys = map snd (sort_key fst (zip keys [0..<length keys]))"

text \<open>
  The numeric value of a mean time, where it has one: the specification retains the
  entries "whose mean time is a valid positive numeric value".
\<close>

fun numeric_value :: "pyval \<Rightarrow> rat option" where
  "numeric_value (PyBool b) = Some (if b then 1 else 0)"
| "numeric_value (PyInt n) = Some (of_int n)"
| "numeric_value (PyFloat x) = Some x"
| "numeric_value v = None"

definition positive_mean :: "pyval \<Rightarrow> bool" where
  "positive_mean time_info =
     (case numeric_value (avg_time_of time_info) of Some x \<Rightarrow> 0 < x | None \<Rightarrow> False)"

text \<open>Lines 219--233: the ranked table and its first five rows, or the warning.\<close>

datatype bottleneck_output =
    Bottleneck_Table "perf_row list" "perf_row list"
  | No_valid_performance_data

definition perf_df ::
  "(rat list \<Rightarrow> nat list) \<Rightarrow> ((string \<times> string) \<times> pyval) list \<Rightarrow> perf_row list" where
  "perf_df argsort mean_times =
     sort_values_desc argsort Avg_Time_hours (performance_data mean_times)"

definition bottleneck_analysis ::
  "(rat list \<Rightarrow> nat list) \<Rightarrow> ((string \<times> string) \<times> pyval) list \<Rightarrow> bottleneck_output" where
  "bottleneck_analysis argsort mean_times =
     (if performance_data mean_times \<noteq> []
      then Bottleneck_Table (perf_df argsort mean_times) (take 5 (perf_df argsort mean_times))
      else No_valid_performance_data)"

text \<open>
  The order the specification asks of the ranked table: descending by mean time, entries
  of equal mean time in the lexicographic order of their pair of activities.
\<close>

definition ranked_with_ties_by_pair :: "perf_row list \<Rightarrow> bool" where
  "ranked_with_ties_by_pair rows =
     sorted_wrt (\<lambda>r s. Avg_Time_hours s < Avg_Time_hours r \<or>
                        Avg_Time_hours s = Avg_Time_hours r \<and> (From r, To r) \<le> (From s, To s))
       rows"

text \<open>
  The same order read on the mean times in seconds, as the mapping gives them, rather
  than on the rounded hours of the table.
\<close>

definition mean_seconds :: "((string \<times> string) \<times> pyval) list \<Rightarrow> perf_row \<Rightarrow> rat" where
  "mean_seconds mean_times r =
     (case map_of mean_times (From r, To r) of
        Some time_info \<Rightarrow> as_float (avg_time_of time_info)
      | None \<Rightarrow> 0)"

definition ranked_by_seconds ::
  "((string \<times> string) \<times> pyval) list \<Rightarrow> perf_row list \<Rightarrow> bool" where
  "ranked_by_seconds mean_times rows =
     sorted_wrt (\<lambda>r s. mean_seconds mean_times s < mean_seconds mean_times r \<or>
                        mean_seconds mean_times s = mean_seconds mean_times r \<and>
                        (From r, To r) \<le> (From s, To s))
       rows"

section \<open>The event log\<close>

text \<open>
  An event of a pm4py \<^verbatim>\<open>EventLog\<close> is a dictionary. The script reads the key
  \<^verbatim>\<open>'concept:name'\<close> unconditionally and tests for the key \<^verbatim>\<open>'time:timestamp'\<close> in the
  variant loop, so the timestamp is optional in the model. A trace is the list of its
  events and the log the list of its traces.
\<close>

record event =
  concept_name :: string
  time_timestamp :: "rat option"

text \<open>
  The timestamp of an event that carries one. Every use below stands behind a test that
  the key is present; the value for a missing key is never read.
\<close>

definition stamp :: "event \<Rightarrow> rat" where
  "stamp x = (case time_timestamp x of Some t \<Rightarrow> t | None \<Rightarrow> 0)"

section \<open>Trace Builder (dashboard.py, lines 44--53)\<close>

text \<open>
  The three steps are calls into pm4py, whose code is not part of the repository; they
  are modelled from section 4.1 of the specification. A raw record carries the case
  identifier, the activity label and the parsed timestamp.
\<close>

record raw_record =
  rec_case_id :: string
  rec_activity :: string
  rec_timestamp :: rat

text \<open>
  Modelled from the spec: \<^verbatim>\<open>pm4py.format_dataframe\<close> is missing from the sources. "Within
  each group, sorts by timestamp ascending; stable w.r.t. original relative order for equal
  timestamps": the rows are ordered by case and, within a case, by time.
\<close>

definition format_dataframe :: "raw_record list \<Rightarrow> raw_record list" where
  "format_dataframe df = sort_key rec_case_id (sort_key rec_timestamp df)"

definition case_size :: "raw_record list \<Rightarrow> string \<Rightarrow> nat" where
  "case_size df c = length (filter (\<lambda>r. rec_case_id r = c) df)"

text \<open>
  Modelled from the spec: \<^verbatim>\<open>pm4py.filter_case_size(df, min_size, max_size)\<close> is missing
  from the sources. "Drops any group whose event count is below a configurable threshold";
  the script passes 2 and \<^verbatim>\<open>None\<close> (no upper bound).
\<close>

definition filter_case_size :: "raw_record list \<Rightarrow> nat \<Rightarrow> nat option \<Rightarrow> raw_record list" where
  "filter_case_size df min_size max_size =
     filter (\<lambda>r. min_size \<le> case_size df (rec_case_id r) \<and>
                 (case max_size of None \<Rightarrow> True | Some m \<Rightarrow> case_size df (rec_case_id r) \<le> m)) df"

definition to_event :: "raw_record \<Rightarrow> event" where
  "to_event r = \<lparr>concept_name = rec_activity r, time_timestamp = Some (rec_timestamp r)\<rparr>"

text \<open>
  Modelled from the spec: the conversion \<^verbatim>\<open>log_converter.apply\<close> to an event log is
  missing from the sources. "Groups records by case_id": one trace per distinct case
  identifier, holding the rows of that case in the order of the data frame. A trace is
  paired with its case identifier (pm4py keeps it as an attribute of the trace).
\<close>

definition log_converter_apply :: "raw_record list \<Rightarrow> (string \<times> event list) list" where
  "log_converter_apply df =
     map (\<lambda>c. (c, map to_event (filter (\<lambda>r. rec_case_id r = c) df))) (remdups (map rec_case_id df))"

text \<open>Lines 44--53 in sequence, and the event log the analyzers iterate over.\<close>

definition trace_builder :: "raw_record list \<Rightarrow> (string \<times> event list) list" where
  "trace_builder df = log_converter_apply (filter_case_size (format_dataframe df) 2 None)"

definition event_log_of :: "raw_record list \<Rightarrow> event list list" where
  "event_log_of df = map snd (trace_builder df)"

section \<open>Case duration statistics (dashboard.py, lines 70--76)\<close>

text \<open>
  Modelled from the spec: \<^verbatim>\<open>case_statistics.get_all_case_durations\<close> of pm4py is missing
  from the sources. It returns "the sequence of per-case durations", one for each trace,
  in ascending order; the duration of one trace is left as a parameter.
\<close>

definition get_all_case_durations :: "(event list \<Rightarrow> rat) \<Rightarrow> event list list \<Rightarrow> rat list" where
  "get_all_case_durations case_duration event_log = sort (map case_duration event_log)"

text \<open>
  What a metric shows: \<^verbatim>\<open>f"{x} hours"\<close> for a number \<open>x\<close>, or the text \<^verbatim>\<open>"N/A"\<close>.
\<close>

datatype metric = Hours rat | NA

record duration_metrics =
  Avg_Case_Duration :: metric
  Min_Case_Duration :: metric
  Max_Case_Duration :: metric

text \<open>\<^verbatim>\<open>min\<close> and \<^verbatim>\<open>max\<close> of a list; the script calls them on non-empty lists only.\<close>

definition py_min :: "rat list \<Rightarrow> rat" where
  "py_min xs = fold min (tl xs) (hd xs)"

definition py_max :: "rat list \<Rightarrow> rat" where
  "py_max xs = fold max (tl xs) (hd xs)"

text \<open>Line 71.\<close>

definition avg_duration :: "rat list \<Rightarrow> rat" where
  "avg_duration case_durations =
     (if case_durations \<noteq> [] then sum_list case_durations / of_nat (length case_durations)
      else 0)"

text \<open>Lines 73--76.\<close>

definition case_duration_metrics :: "rat list \<Rightarrow> duration_metrics" where
  "case_duration_metrics case_durations =
     \<lparr>Avg_Case_Duration = Hours (py_round2 (float_div (avg_duration case_durations) 3600)),
      Min_Case_Duration =
        (if case_durations \<noteq> []
         then Hours (py_round2 (float_div (py_min case_durations) 3600)) else NA),
      Max_Case_Duration =
        (if case_durations \<noteq> []
         then Hours (py_round2 (float_div (py_max case_durations) 3600)) else NA)\<rparr>"

section \<open>Activity frequency and timing (dashboard.py, lines 84--123)\<close>

text \<open>
  Modelled from the spec: \<^verbatim>\<open>pm4py.get_event_attribute_values\<close> is missing from the
  sources. "\<open>count\<close> = total occurrences of the activity across all traces": a dictionary
  from each label to the number of events bearing it, its keys in the order of their
  first occurrence in the log (a Python dictionary keeps insertion order).
\<close>

fun count_value :: "string \<Rightarrow> (string \<times> nat) list \<Rightarrow> (string \<times> nat) list" where
  "count_value v [] = [(v, 1)]"
| "count_value v ((k, n) # rest) =
     (if k = v then (k, n + 1) # rest else (k, n) # count_value v rest)"

definition get_event_attribute_values :: "event list list \<Rightarrow> (string \<times> nat) list" where
  "get_event_attribute_values event_log = fold count_value (map concept_name (concat event_log)) []"

text \<open>
  The dictionary \<^verbatim>\<open>activity_timing\<close>: each activity maps to a dictionary with the one
  key \<^verbatim>\<open>'durations'\<close>, which is the list stored here.
\<close>

type_synonym timing = "string \<rightharpoonup> rat list"

text \<open>
  Line 94, \<^verbatim>\<open>sorted(trace, key=lambda x: x['time:timestamp'])\<close>: the key function is
  applied to every event first and raises on an event without the key; the sort is stable.
\<close>

definition sorted_events_of :: "event list \<Rightarrow> error + event list" where
  "sorted_events_of trace =
     (if \<forall>x \<in> set trace. time_timestamp x \<noteq> None
      then Inr (sort_key stamp trace)
      else Inl (KeyError ''time:timestamp''))"

text \<open>Lines 96--106, the loop over the sorted events of one trace.\<close>

fun walk_events :: "event option \<Rightarrow> event list \<Rightarrow> timing \<Rightarrow> error + timing" where
  "walk_events previous_event [] activity_timing = Inr activity_timing"
| "walk_events previous_event (event # rest) activity_timing =
     (let activity = concept_name event;
          activity_timing1 =
            (if activity_timing activity = None then activity_timing(activity \<mapsto> [])
             else activity_timing)
      in case previous_event of
           None \<Rightarrow> walk_events (Some event) rest activity_timing1
         | Some previous \<Rightarrow>
             (case time_timestamp event of
                None \<Rightarrow> Inl (KeyError ''time:timestamp'')
              | Some t \<Rightarrow>
                  (case time_timestamp previous of
                     None \<Rightarrow> Inl (KeyError ''time:timestamp'')
                   | Some p \<Rightarrow>
                       (case activity_timing1 activity of
                          None \<Rightarrow> Inl (KeyError activity)
                        | Some durations \<Rightarrow>
                            walk_events (Some event) rest
                              (activity_timing1(activity \<mapsto> durations @ [t - p]))))))"

text \<open>Lines 87--106, the loop over the traces.\<close>

fun timing_loop :: "event list list \<Rightarrow> timing \<Rightarrow> error + timing" where
  "timing_loop [] activity_timing = Inr activity_timing"
| "timing_loop (trace # rest) activity_timing =
     and_then (sorted_events_of trace) (\<lambda>sorted_events.
     and_then (walk_events None sorted_events activity_timing) (\<lambda>activity_timing'.
     timing_loop rest activity_timing'))"

definition activity_timing :: "event list list \<Rightarrow> error + timing" where
  "activity_timing event_log = timing_loop event_log Map.empty"

record activity_row =
  Activity :: string
  Count :: nat
  Percentage :: rat
  Min_Duration_hours :: rat
  Avg_Duration_hours :: rat
  Max_Duration_hours :: rat
  Sample_Size :: nat

text \<open>
  Lines 109--121. The lookup \<^verbatim>\<open>activity_timing[activity]\<close> raises \<^verbatim>\<open>KeyError\<close> on a missing
  key, and the division by \<^verbatim>\<open>sum(activity_counts.values())\<close> raises on zero.
\<close>

fun activity_rows ::
  "(string \<times> nat) list \<Rightarrow> (string \<times> nat) list \<Rightarrow> timing \<Rightarrow> error + activity_row list" where
  "activity_rows activity_counts [] timing = Inr []"
| "activity_rows activity_counts ((activity, n) # rest) timing =
     (case timing activity of
        None \<Rightarrow> Inl (KeyError activity)
      | Some durations \<Rightarrow>
          and_then (py_div (of_nat n) (of_nat (sum_list (map snd activity_counts)))) (\<lambda>share.
          and_then (activity_rows activity_counts rest timing) (\<lambda>rows.
          Inr (\<lparr>Activity = activity,
                Count = n,
                Percentage = py_round2 (float_mul share 100),
                Min_Duration_hours =
                  (if durations \<noteq> [] then py_round2 (float_div (py_min durations) 3600)
                   else 0),
                Avg_Duration_hours =
                  (if durations \<noteq> []
                   then py_round2
                     (float_div (float_div (sum_list durations) (of_nat (length durations))) 3600)
                   else 0),
                Max_Duration_hours =
                  (if durations \<noteq> [] then py_round2 (float_div (py_max durations) 3600)
                   else 0),
                Sample_Size = length durations\<rparr> # rows))))"

definition activity_data :: "event list list \<Rightarrow> error + activity_row list" where
  "activity_data event_log =
     and_then (activity_timing event_log) (\<lambda>timing.
       activity_rows (get_event_attribute_values event_log)
         (get_event_attribute_values event_log) timing)"

text \<open>
  Line 123. A data frame built from an empty list has no column, so that sorting it by
  \<^verbatim>\<open>'Count'\<close> raises \<^verbatim>\<open>KeyError\<close>.
\<close>

definition activity_df ::
  "(nat list \<Rightarrow> nat list) \<Rightarrow> event list list \<Rightarrow> error + activity_row list" where
  "activity_df argsort event_log =
     and_then (activity_data event_log) (\<lambda>rows.
       if rows = [] then Inl (KeyError ''Count'')
       else Inr (sort_values_desc argsort Count rows))"

text \<open>
  The duration samples as the specification words them: walking one time-sorted trace,
  every event but the first yields the seconds elapsed since the event before it, filed
  under the event's own activity.
\<close>

definition trace_samples :: "event list \<Rightarrow> (string \<times> rat) list" where
  "trace_samples sorted_trace =
     map (\<lambda>(previous, x). (concept_name x, stamp x - stamp previous))
       (zip sorted_trace (tl sorted_trace))"

definition samples_of :: "string \<Rightarrow> event list list \<Rightarrow> rat list" where
  "samples_of a event_log =
     concat (map (\<lambda>trace. map snd (filter (\<lambda>s. fst s = a) (trace_samples (sort_key stamp trace))))
       event_log)"

text \<open>
  The order the specification asks of the activity table: descending by count, activities
  of equal count in ascending order of their label.
\<close>

definition ranked_with_ties_by_label :: "activity_row list \<Rightarrow> bool" where
  "ranked_with_ties_by_label rows =
     sorted_wrt (\<lambda>r s. Count s < Count r \<or> Count s = Count r \<and> Activity r \<le> Activity s) rows"

section \<open>Process variants (dashboard.py, lines 151--186)\<close>

text \<open>
  Modelled from the spec: \<^verbatim>\<open>pm4py.get_variants_as_tuples\<close> is missing from the sources.
  "A trace's variant key is the ordered sequence of its events' activity labels": a
  dictionary from each key to the list of the traces that have it, keys in the order of
  their first occurrence.
\<close>

fun add_trace ::
  "event list \<Rightarrow> (string list \<times> event list list) list \<Rightarrow> (string list \<times> event list list) list" where
  "add_trace trace [] = [(map concept_name trace, [trace])]"
| "add_trace trace ((variant, traces) # rest) =
     (if variant = map concept_name trace then (variant, traces @ [trace]) # rest
      else (variant, traces) # add_trace trace rest)"

definition get_variants_as_tuples :: "event list list \<Rightarrow> (string list \<times> event list list) list" where
  "get_variants_as_tuples event_log = fold add_trace event_log []"

text \<open>Lines 155--163, the loop over the traces of one variant.\<close>

fun variant_durations :: "event list list \<Rightarrow> rat list" where
  "variant_durations [] = []"
| "variant_durations (trace # rest) =
     (let events = filter (\<lambda>x. time_timestamp x \<noteq> None) trace in
      if length events > 1
      then (stamp (last events) - stamp (hd events)) # variant_durations rest
      else variant_durations rest)"

text \<open>Line 165.\<close>

definition variant_avg_duration :: "event list list \<Rightarrow> rat" where
  "variant_avg_duration traces =
     (if variant_durations traces \<noteq> []
      then sum_list (variant_durations traces) / of_nat (length (variant_durations traces))
      else 0)"





text \<open>The separator \<^verbatim>\<open>' -> '\<close> written with the arrow U+2192, in UTF-8.\<close>

definition arrow :: string where
  "arrow = [CHR '' '', CHR 0xE2, CHR 0x86, CHR 0x92, CHR '' '']"

text \<open>\<^verbatim>\<open>sep.join(xs)\<close>\<close>

fun py_join :: "string \<Rightarrow> string list \<Rightarrow> string" where
  "py_join sep [] = []"
| "py_join sep [x] = x"
| "py_join sep (x # y # ys) = x @ sep @ py_join sep (y # ys)"

text \<open>
  \<^verbatim>\<open>s.split(sep)\<close> for a non-empty separator: the string is cut at each occurrence of the
  separator, found from left to right and never overlapping. \<open>cur\<close> is the piece read so
  far.
\<close>

fun split_from :: "string \<Rightarrow> string \<Rightarrow> string \<Rightarrow> string list" where
  "split_from sep cur [] = [cur]"
| "split_from sep cur (c # cs) =
     (if sep \<noteq> [] \<and> prefix sep (c # cs)
      then cur # split_from sep [] (drop (length sep) (c # cs))
      else split_from sep (cur @ [c]) cs)"

definition py_split :: "string \<Rightarrow> string \<Rightarrow> string list" where
  "py_split s sep = split_from sep [] s"

record variant_row =
  Variant :: string
  Variant_Count :: nat
  Variant_Avg_Duration_hours :: rat

text \<open>Lines 153--170.\<close>

definition variant_stats :: "event list list \<Rightarrow> variant_row list" where
  "variant_stats event_log =
     map (\<lambda>(variant, traces).
            \<lparr>Variant = py_join arrow variant,
             Variant_Count = length traces,
             Variant_Avg_Duration_hours =
               py_round2 (float_div (variant_avg_duration traces) 3600)\<rparr>)
       (get_variants_as_tuples event_log)"

text \<open>
  Modelled from the spec: \<^verbatim>\<open>pm4py.filter_variants\<close> is missing from the sources. "Given a
  variant key, return the sub-EventLog containing exactly the traces matching that key";
  the function takes a list of keys.
\<close>

definition filter_variants :: "event list list \<Rightarrow> string list list \<Rightarrow> event list list" where
  "filter_variants event_log variants =
     filter (\<lambda>trace. map concept_name trace \<in> set variants) event_log"

text \<open>
  Lines 183--186. The selection box offers the \<^verbatim>\<open>'Variant'\<close> column of the table, so
  \<open>selected_variant\<close> is the joined text of a variant of the log.
\<close>

definition filtered_log :: "event list list \<Rightarrow> string \<Rightarrow> event list list" where
  "filtered_log event_log selected_variant =
     filter_variants event_log [py_split selected_variant arrow]"

section \<open>Floating-point rounding\<close>

text \<open>
  The exponent found by \<open>float_exponent\<close> is the right one, so that \<open>fl\<close> is the nearest
  float; \<open>fl\<close> changes its argument by at most one part in \<open>2\<^sup>5\<^sup>3\<close> and leaves a float as
  it is.
\<close>

lemma pow2_pos: "0 < (2::rat) powi k"
  by (simp add: zero_less_power_int)

lemma float_exponent_bounds:
  assumes "x \<noteq> 0"
  shows "2 powi float_exponent x \<le> \<bar>x\<bar>" and "\<bar>x\<bar> < 2 powi (float_exponent x + 1)"
proof -
  obtain a b where q: "quotient_of \<bar>x\<bar> = (a, b)"
    by (cases "quotient_of \<bar>x\<bar>")
  have b: "0 < b" using q by (rule quotient_of_denom_pos)
  have x: "\<bar>x\<bar> = of_int a / of_int b" using q by (rule quotient_of_div)
  have "0 < \<bar>x\<bar>" using assms by simp
  then have a: "0 < a"
    unfolding x using b by (simp add: zero_less_divide_iff)
  define la lb where "la = bitlen a" and "lb = bitlen b"
  have la: "2 ^ nat (la - 1) \<le> a" "a < 2 ^ nat la"
    using bitlen_bounds [OF a] by (simp_all add: la_def)
  have lb: "2 ^ nat (lb - 1) \<le> b" "b < 2 ^ nat lb"
    using bitlen_bounds [OF b] by (simp_all add: lb_def)
  have la1: "1 \<le> la"
    using a bitlen_eq_zero_iff [of a] bitlen_nonneg [of a] unfolding la_def by linarith
  have lb1: "1 \<le> lb"
    using b bitlen_eq_zero_iff [of b] bitlen_nonneg [of b] unfolding lb_def by linarith
  have ra: "(2::rat) powi (la - 1) \<le> of_int a" "of_int a < (2::rat) powi la"
  proof -
    have "(2::rat) powi (la - 1) = of_int (2 ^ nat (la - 1))"
      using la1 by (simp add: power_int_def)
    also have "\<dots> \<le> of_int a" using la(1) by (simp only: of_int_le_iff)
    finally show "(2::rat) powi (la - 1) \<le> of_int a" .
    have "(of_int a :: rat) < of_int (2 ^ nat la)" using la(2) by (simp only: of_int_less_iff)
    also have "\<dots> = 2 powi la" using la1 by (simp add: power_int_def)
    finally show "of_int a < (2::rat) powi la" .
  qed
  have rb: "(2::rat) powi (lb - 1) \<le> of_int b" "of_int b < (2::rat) powi lb"
  proof -
    have "(2::rat) powi (lb - 1) = of_int (2 ^ nat (lb - 1))"
      using lb1 by (simp add: power_int_def)
    also have "\<dots> \<le> of_int b" using lb(1) by (simp only: of_int_le_iff)
    finally show "(2::rat) powi (lb - 1) \<le> of_int b" .
    have "(of_int b :: rat) < of_int (2 ^ nat lb)" using lb(2) by (simp only: of_int_less_iff)
    also have "\<dots> = 2 powi lb" using lb1 by (simp add: power_int_def)
    finally show "of_int b < (2::rat) powi lb" .
  qed
  have bpos: "(0::rat) < of_int b" using b by simp
  have lower: "(2::rat) powi (la - lb - 1) < \<bar>x\<bar>"
  proof -
    have "(2::rat) powi (la - lb - 1) * of_int b < 2 powi (la - lb - 1) * 2 powi lb"
      using rb(2) by (simp add: mult_strict_left_mono)
    also have "\<dots> = 2 powi (la - 1)"
      by (simp flip: power_int_add)
    also have "\<dots> \<le> of_int a" by (rule ra(1))
    finally show ?thesis
      unfolding x using bpos by (simp add: pos_less_divide_eq)
  qed
  have upper: "\<bar>x\<bar> < (2::rat) powi (la - lb + 1)"
  proof -
    have "of_int a < (2::rat) powi la" by (rule ra(2))
    also have "\<dots> = 2 powi (la - lb + 1) * 2 powi (lb - 1)"
      by (simp flip: power_int_add)
    also have "\<dots> \<le> 2 powi (la - lb + 1) * of_int b"
      using rb(1) by (simp add: mult_left_mono)
    finally show ?thesis
      unfolding x using bpos by (simp add: pos_divide_less_eq)
  qed
  have e: "float_exponent x = (if 2 powi (la - lb) \<le> \<bar>x\<bar> then la - lb else la - lb - 1)"
    by (simp add: float_exponent_def q la_def lb_def)
  show "2 powi float_exponent x \<le> \<bar>x\<bar>"
    unfolding e using lower by auto
  show "\<bar>x\<bar> < 2 powi (float_exponent x + 1)"
    unfolding e using upper by auto
qed

lemma float_exponent_eq:
  assumes "(2::rat) powi e \<le> \<bar>x\<bar>" and "\<bar>x\<bar> < 2 powi (e + 1)"
  shows "float_exponent x = e"
proof -
  have "0 < \<bar>x\<bar>"
    using assms(1) pow2_pos [of e] by linarith
  then have "x \<noteq> 0"
    by simp
  note b = float_exponent_bounds [OF this]
  have "\<not> float_exponent x < e"
  proof
    assume "float_exponent x < e"
    then have "(2::rat) powi (float_exponent x + 1) \<le> 2 powi e"
      by (intro power_int_increasing) auto
    with b(2) assms(1) show False by linarith
  qed
  moreover have "\<not> e < float_exponent x"
  proof
    assume "e < float_exponent x"
    then have "(2::rat) powi (e + 1) \<le> 2 powi float_exponent x"
      by (intro power_int_increasing) auto
    with b(1) assms(2) show False by linarith
  qed
  ultimately show ?thesis by linarith
qed

lemma round_half_even_bounds: "\<bar>of_int (round_half_even x) - x\<bar> \<le> 1 / 2"
proof -
  have lo: "of_int \<lfloor>x\<rfloor> \<le> x" and hi: "x < of_int \<lfloor>x\<rfloor> + 1"
    by linarith+
  show ?thesis
    unfolding round_half_even_def Let_def using lo hi by (simp add: abs_le_iff)
qed

lemma fl_error: "\<bar>fl x - x\<bar> \<le> \<bar>x\<bar> / 2 ^ 53"
proof (cases "x = 0")
  case True
  then show ?thesis by (simp add: fl_def)
next
  case False
  define e where "e = float_exponent x"
  define ulp :: rat where "ulp = 2 powi (e - 52)"
  have ulp: "0 < ulp" by (simp add: ulp_def pow2_pos)
  have fl: "fl x = of_int (round_half_even (x / ulp)) * ulp"
    using False by (simp add: fl_def Let_def ulp_def e_def)
  have "\<bar>of_int (round_half_even (x / ulp)) - x / ulp\<bar> \<le> 1 / 2"
    by (rule round_half_even_bounds)
  then have "\<bar>of_int (round_half_even (x / ulp)) - x / ulp\<bar> * ulp \<le> 1 / 2 * ulp"
    using ulp by (simp add: mult_right_mono)
  moreover have "\<bar>of_int (round_half_even (x / ulp)) - x / ulp\<bar> * ulp = \<bar>fl x - x\<bar>"
  proof -
    have "\<bar>of_int (round_half_even (x / ulp)) - x / ulp\<bar> * ulp =
        \<bar>(of_int (round_half_even (x / ulp)) - x / ulp) * ulp\<bar>"
      using ulp by (simp add: abs_mult)
    also have "(of_int (round_half_even (x / ulp)) - x / ulp) * ulp = fl x - x"
      using ulp by (simp add: fl left_diff_distrib)
    finally show ?thesis .
  qed
  ultimately have "\<bar>fl x - x\<bar> \<le> ulp / 2" by simp
  also have "ulp / 2 = 2 powi e / 2 ^ 53"
  proof -
    have "(2::rat) powi (e - 52) * 2 powi 52 = 2 powi (e - 52 + 52)"
      by (rule power_int_add [symmetric]) simp
    then have "(2::rat) powi e = 2 powi (e - 52) * 2 ^ 52"
      by simp
    then show ?thesis by (simp add: ulp_def)
  qed
  also have "\<dots> \<le> \<bar>x\<bar> / 2 ^ 53"
    using float_exponent_bounds(1) [OF False] by (simp add: e_def divide_right_mono)
  finally show ?thesis .
qed

lemma fl_eq:
  assumes "(2::rat) powi e \<le> \<bar>x\<bar>" and "\<bar>x\<bar> < 2 powi (e + 1)"
  shows "fl x = of_int (round_half_even (x / 2 powi (e - 52))) * 2 powi (e - 52)"
proof -
  have "0 < \<bar>x\<bar>"
    using assms(1) pow2_pos [of e] by linarith
  then have "x \<noteq> 0"
    by simp
  then show ?thesis
    by (simp add: fl_def Let_def float_exponent_eq [OF assms])
qed

lemma floor_rat_numeral_div [simp]:
  "\<lfloor>(numeral a :: rat) / numeral b\<rfloor> = numeral a div numeral b"
  by (metis floor_divide_of_int_eq of_int_numeral)

lemma floor_rat_one_div [simp]:
  "\<lfloor>(1 :: rat) / numeral b\<rfloor> = 1 div numeral b"
  by (metis floor_divide_of_int_eq of_int_numeral of_int_1)


lemma round_half_even_of_int [simp]: "round_half_even (of_int m) = m"
  by (simp add: round_half_even_def)

lemma round_half_even_0 [simp]: "round_half_even 0 = 0"
  using round_half_even_of_int [of 0] by simp

lemma round_half_even_numeral [simp]: "round_half_even (numeral n) = numeral n"
  using round_half_even_of_int [of "numeral n"] by simp

lemma round_half_even_eq:
  assumes "\<bar>y - of_int k\<bar> < 1 / 2"
  shows "round_half_even y = k"
proof -
  have "\<bar>of_int (round_half_even y) - y\<bar> \<le> 1 / 2"
    by (rule round_half_even_bounds)
  with assms have "\<bar>(of_int (round_half_even y) :: rat) - of_int k\<bar> < 1"
    by linarith
  then have "\<bar>(of_int (round_half_even y - k) :: rat)\<bar> < of_int 1"
    by simp
  then have "\<bar>round_half_even y - k\<bar> < 1"
    by (simp only: of_int_abs [symmetric] of_int_less_iff)
  then show ?thesis by linarith
qed

lemma fl_0 [simp]: "fl 0 = 0"
  by (simp add: fl_def)

lemma pow2_split: "(2::rat) powi (e + 1) = 2 powi (e - 52) * 2 ^ 53"
  and pow2_split': "(2::rat) powi e = 2 powi (e - 52) * 2 ^ 52"
  and pow2_double: "(2::rat) powi (e - 51) = 2 powi (e - 52) * 2"
proof -
  have "(2::rat) powi (e - 52) * 2 powi 53 = 2 powi (e - 52 + 53)"
    by (rule power_int_add [symmetric]) simp
  then show "(2::rat) powi (e + 1) = 2 powi (e - 52) * 2 ^ 53"
    by (simp add: algebra_simps)
  have "(2::rat) powi (e - 52) * 2 powi 52 = 2 powi (e - 52 + 52)"
    by (rule power_int_add [symmetric]) simp
  then show "(2::rat) powi e = 2 powi (e - 52) * 2 ^ 52"
    by simp
  have "(2::rat) powi (e - 52) * 2 powi 1 = 2 powi (e - 52 + 1)"
    by (rule power_int_add [symmetric]) simp
  then show "(2::rat) powi (e - 51) = 2 powi (e - 52) * 2"
    by (simp add: algebra_simps)
qed

lemma fl_fl [simp]: "fl (fl x) = fl x"
proof (cases "x = 0")
  case True
  then show ?thesis by simp
next
  case False
  define e where "e = float_exponent x"
  define u :: rat where "u = 2 powi (e - 52)"
  define m where "m = round_half_even (x / u)"
  have u: "0 < u" by (simp add: u_def pow2_pos)
  have e0: "(2::rat) powi e = u * 4503599627370496"
    using pow2_split' [of e] by (simp add: u_def)
  have e1: "(2::rat) powi (e + 1) = u * 9007199254740992"
    using pow2_split [of e] by (simp add: u_def)
  have e2: "(2::rat) powi (e + 1 + 1) = u * 18014398509481984"
  proof -
    have "(2::rat) powi (e + 1 + 1) = 2 powi (e + 1) * 2 powi 1"
      by (rule power_int_add) simp
    then show ?thesis by (simp add: e1)
  qed
  have u2: "(2::rat) powi (e + 1 - 52) = u * 2"
    using pow2_double [of e] by (simp add: u_def)
  have flx: "fl x = of_int m * u"
    using False by (simp add: fl_def Let_def u_def e_def m_def)
  have lo: "u * 4503599627370496 \<le> \<bar>x\<bar>" and hi: "\<bar>x\<bar> < u * 9007199254740992"
    using float_exponent_bounds [OF False] by (simp_all add: e_def [symmetric] e0 e1)
  have ylo: "4503599627370496 \<le> \<bar>x / u\<bar>" and yhi: "\<bar>x / u\<bar> < 9007199254740992"
    using lo hi u by (simp_all add: abs_divide pos_le_divide_eq pos_divide_less_eq mult.commute)
  have near: "\<bar>of_int m - x / u\<bar> \<le> 1 / 2"
    unfolding m_def by (rule round_half_even_bounds)
  have "(4503599627370495 :: rat) < \<bar>of_int m\<bar>" and "\<bar>of_int m :: rat\<bar> < 9007199254740993"
    using near ylo yhi by linarith+
  then have "(of_int 4503599627370495 :: rat) < of_int \<bar>m\<bar>"
    and "(of_int \<bar>m\<bar> :: rat) < of_int 9007199254740993"
    by simp_all
  then have mlo: "4503599627370496 \<le> \<bar>m\<bar>" and mhi: "\<bar>m\<bar> \<le> 9007199254740992"
    unfolding of_int_less_iff by linarith+
  have absfl: "\<bar>fl x\<bar> = of_int \<bar>m\<bar> * u"
    using u by (simp add: flx abs_mult)
  show ?thesis
  proof (cases "\<bar>m\<bar> < 9007199254740992")
    case True
    have "(of_int 4503599627370496 :: rat) \<le> of_int \<bar>m\<bar>"
      and "(of_int \<bar>m\<bar> :: rat) < of_int 9007199254740992"
      using mlo True unfolding of_int_le_iff of_int_less_iff by simp_all
    then have a: "(4503599627370496 :: rat) \<le> of_int \<bar>m\<bar>"
      and b: "(of_int \<bar>m\<bar> :: rat) < 9007199254740992"
      by simp_all
    have "2 powi e \<le> \<bar>fl x\<bar>"
      unfolding absfl e0 using a u by (simp add: mult.commute)
    moreover have "\<bar>fl x\<bar> < 2 powi (e + 1)"
      unfolding absfl e1 using b u by (simp add: mult.commute)
    ultimately have "fl (fl x) =
        of_int (round_half_even (fl x / 2 powi (e - 52))) * 2 powi (e - 52)"
      by (rule fl_eq)
    also have "fl x / 2 powi (e - 52) = of_int m"
      using u by (simp add: flx u_def [symmetric])
    finally show ?thesis
      by (simp add: flx u_def)
  next
    case False
    with mhi have m53: "\<bar>m\<bar> = 9007199254740992" by linarith
    then have "m = 9007199254740992 \<or> m = - 9007199254740992" by linarith
    then have ev: "m = 2 * (m div 2)" by auto
    have am: "(of_int \<bar>m\<bar> :: rat) = 9007199254740992"
      unfolding m53 by simp
    have "2 powi (e + 1) \<le> \<bar>fl x\<bar>"
      unfolding absfl e1 am by (simp add: mult.commute)
    moreover have "\<bar>fl x\<bar> < 2 powi (e + 1 + 1)"
      unfolding absfl am e2 using u by simp
    ultimately have "fl (fl x) =
        of_int (round_half_even (fl x / 2 powi (e + 1 - 52))) * 2 powi (e + 1 - 52)"
      by (rule fl_eq)
    then have "fl (fl x) = of_int (round_half_even (fl x / (u * 2))) * (u * 2)"
      unfolding u2 .
    also have "fl x / (u * 2) = of_int (m div 2)"
    proof -
      have "fl x / (u * 2) = of_int m / 2"
        unfolding flx using u by simp
      also have "\<dots> = of_int (m div 2)"
        by (subst ev) simp
      finally show ?thesis .
    qed
    finally have "fl (fl x) = of_int (m div 2) * (u * 2)"
      by simp
    also have "\<dots> = of_int (2 * (m div 2)) * u"
      by simp
    finally show ?thesis
      using ev by (simp add: flx)
  qed
qed

lemma fl_3600 [simp]: "fl 3600 = 3600"
  by (subst fl_eq [where e = 11]) (simp_all add: power_int_minus)

lemma fl_100 [simp]: "fl 100 = 100"
  by (subst fl_eq [where e = 6]) (simp_all add: power_int_minus)


lemma fl_error_bound:
  assumes "\<bar>x\<bar> \<le> B"
  shows "\<bar>fl x - x\<bar> \<le> B / 9007199254740992"
proof -
  have "\<bar>fl x - x\<bar> \<le> \<bar>x\<bar> / 2 ^ 53" by (rule fl_error)
  also have "\<dots> \<le> B / 2 ^ 53" using assms by (simp add: divide_right_mono)
  finally show ?thesis by simp
qed



lemma py_round2_0 [simp]: "py_round2 0 = 0"
  by (simp add: py_round2_def)

lemma py_round2_eqI:
  assumes "\<bar>fl x * 100 - of_int k\<bar> < 1 / 2"
  shows "py_round2 x = of_int k / 100"
  unfolding py_round2_def using round_half_even_eq [OF assms] by simp

lemma hours_value:
  assumes a: "\<bar>a\<bar> \<le> 1000000000" and k: "\<bar>a / 36 - of_int k\<bar> \<le> 2 / 5"
  shows "py_round2 (float_div a 3600) = of_int k / 100"
proof -
  define z where "z = fl a / 3600"
  have 1: "\<bar>fl a - a\<bar> \<le> 1000000000 / 9007199254740992"
    using a by (rule fl_error_bound)
  have za: "\<bar>z - a / 3600\<bar> \<le> 1 / 1000000000"
    unfolding z_def using 1 by linarith
  have z: "\<bar>z\<bar> \<le> 1000000"
    using za a by linarith
  have 2: "\<bar>fl z - z\<bar> \<le> 1000000 / 9007199254740992"
    using z by (rule fl_error_bound)
  have "a / 36 = a / 3600 * 100" by simp
  then have "\<bar>fl z * 100 - of_int k\<bar> < 1 / 2"
    using 2 za k by linarith
  then have "\<bar>fl (fl z) * 100 - of_int k\<bar> < 1 / 2"
    by simp
  then have "py_round2 (fl z) = of_int k / 100"
    by (rule py_round2_eqI)
  then show ?thesis
    by (simp add: float_div_def z_def)
qed

lemma int_hours_value:
  assumes a: "\<bar>a\<bar> \<le> 1000000000" and k: "\<bar>a / 36 - of_int k\<bar> \<le> 2 / 5"
  shows "py_round2 (fl (a / 3600)) = of_int k / 100"
proof -
  have "\<bar>a / 3600\<bar> \<le> 1000000000"
    using a by (simp add: abs_le_iff)
  then have "\<bar>fl (a / 3600) - a / 3600\<bar> \<le> 1000000000 / 9007199254740992"
    by (rule fl_error_bound)
  then have "\<bar>fl (a / 3600) * 100 - of_int k\<bar> < 1 / 2"
    using k by linarith
  then have "\<bar>fl (fl (a / 3600)) * 100 - of_int k\<bar> < 1 / 2"
    by simp
  then show ?thesis
    by (rule py_round2_eqI)
qed

lemma percent_bounds:
  assumes "0 \<le> a" and "a \<le> b" and "0 < b"
  shows "\<bar>float_mul (fl (a / b)) 100 - a / b * 100\<bar> \<le> 201 / 9007199254740992"
proof -
  define q where "q = a / b"
  have q: "0 \<le> q" "q \<le> 1"
    using assms by (simp_all add: q_def)
  then have "\<bar>q\<bar> \<le> 1" by simp
  then have 1: "\<bar>fl q - q\<bar> \<le> 1 / 9007199254740992"
    by (rule fl_error_bound)
  then have "\<bar>fl q * 100\<bar> \<le> 101"
    using q by linarith
  then have 2: "\<bar>fl (fl q * 100) - fl q * 100\<bar> \<le> 101 / 9007199254740992"
    by (rule fl_error_bound)
  have "\<bar>fl (fl q * 100) - q * 100\<bar> \<le> 201 / 9007199254740992"
    using 1 2 by linarith
  then show ?thesis
    by (simp add: float_mul_def q_def)
qed

lemma percent_value:
  assumes "0 \<le> a" and "a \<le> b" and "0 < b"
    and k: "\<bar>a / b * 10000 - of_int k\<bar> \<le> 2 / 5"
  shows "py_round2 (float_mul (fl (a / b)) 100) = of_int k / 100"
proof -
  have "\<bar>float_mul (fl (a / b)) 100 - a / b * 100\<bar> \<le> 201 / 9007199254740992"
    using assms(1-3) by (rule percent_bounds)
  then have "\<bar>float_mul (fl (a / b)) 100 * 100 - of_int k\<bar> < 1 / 2"
    using k by linarith
  moreover have "fl (float_mul (fl (a / b)) 100) = float_mul (fl (a / b)) 100"
    by (simp add: float_mul_def)
  ultimately show ?thesis
    by (intro py_round2_eqI) simp
qed


lemma float_rounding_examples:
  "py_round2 (float_mul (fl (23 / 160)) 100) = 1437 / 100"
  "py_round2 (float_div 90 3600) = 3 / 100"
proof -
  have 1: "fl (23 / 160) = 2589569785738035 / 18014398509481984"
    by (subst fl_eq [where e = "- 3"])
      (simp_all add: power_int_minus round_half_even_def Let_def)
  have 2: "fl (2589569785738035 / 18014398509481984 * 100) =
      8092405580431359 / 562949953421312"
    by (subst fl_eq [where e = 3])
      (simp_all add: power_int_minus round_half_even_def Let_def)
  have "float_mul (fl (23 / 160)) 100 = fl (fl (23 / 160) * 100)"
    by (simp add: float_mul_def)
  also have "\<dots> = 8092405580431359 / 562949953421312"
    unfolding 1 by (rule 2)
  finally have p: "float_mul (fl (23 / 160)) 100 = 8092405580431359 / 562949953421312" .
  have "fl (float_mul (fl (23 / 160)) 100) = float_mul (fl (23 / 160)) 100"
    by (simp add: float_mul_def)
  then have "py_round2 (float_mul (fl (23 / 160)) 100) =
      of_int (round_half_even (float_mul (fl (23 / 160)) 100 * 100)) / 100"
    by (simp add: py_round2_def)
  also have "\<dots> = 1437 / 100"
    unfolding p by (simp add: round_half_even_def Let_def)
  finally show "py_round2 (float_mul (fl (23 / 160)) 100) = 1437 / 100" .
  have 3: "fl 90 = 90"
    by (subst fl_eq [where e = 6]) (simp_all add: power_int_minus)
  have 4: "fl (90 / 3600) = 3602879701896397 / 144115188075855872"
    by (subst fl_eq [where e = "- 6"])
      (simp_all add: power_int_minus round_half_even_def Let_def)
  have q: "float_div 90 3600 = 3602879701896397 / 144115188075855872"
    unfolding float_div_def 3 fl_3600 by (rule 4)
  have "fl (float_div 90 3600) = float_div 90 3600"
    by (simp add: float_div_def)
  then have "py_round2 (float_div 90 3600) =
      of_int (round_half_even (float_div 90 3600 * 100)) / 100"
    by (simp add: py_round2_def)
  also have "\<dots> = 3 / 100"
    unfolding q by (simp add: round_half_even_def Let_def)
  finally show "py_round2 (float_div 90 3600) = 3 / 100" .
qed

lemma fl_1 [simp]: "fl 1 = 1"
  by (subst fl_eq [where e = 0]) simp_all

lemma float_div_0 [simp]: "float_div 0 b = 0"
  by (simp add: float_div_def)

lemma float_div_fl [simp]: "float_div (fl a) b = float_div a b"
  by (simp add: float_div_def)

section \<open>Sorting with an unspecified order among equal keys\<close>

lemma argsort_indices:
  assumes "is_argsort argsort"
  shows "mset (argsort keys) = mset [0..<length keys]"
    and "sorted (map (\<lambda>i. keys ! i) (argsort keys))"
    and "j \<in> set (argsort keys) \<Longrightarrow> j < length keys"
proof -
  show m: "mset (argsort keys) = mset [0..<length keys]"
    and "sorted (map (\<lambda>i. keys ! i) (argsort keys))"
    using assms by (simp_all add: is_argsort_def)
  assume "j \<in> set (argsort keys)"
  then have "j \<in> set_mset (mset (argsort keys))" by simp
  then show "j < length keys" unfolding m by simp
qed

lemma mset_nargsort_desc:
  assumes "is_argsort argsort"
  shows "mset (nargsort_desc argsort keys) = mset [0..<length keys]"
proof -
  have "mset (nargsort_desc argsort keys) =
      image_mset (\<lambda>j. rev [0..<length keys] ! j) (mset (argsort (rev keys)))"
    by (simp add: nargsort_desc_def)
  also have "\<dots> = image_mset (\<lambda>j. rev [0..<length keys] ! j) (mset [0..<length keys])"
    using argsort_indices(1) [OF assms, of "rev keys"] by simp
  also have "\<dots> = mset (map (\<lambda>j. rev [0..<length keys] ! j) [0..<length (rev [0..<length keys])])"
    by simp
  also have "\<dots> = mset (rev [0..<length keys])"
    by (simp only: map_nth)
  finally show ?thesis by simp
qed

lemma mset_sort_values_desc:
  assumes "is_argsort argsort"
  shows "mset (sort_values_desc argsort col rows) = mset rows"
proof -
  have "mset (sort_values_desc argsort col rows) =
      image_mset (\<lambda>i. rows ! i) (mset (nargsort_desc argsort (map col rows)))"
    by (simp add: sort_values_desc_def)
  also have "\<dots> = image_mset (\<lambda>i. rows ! i) (mset [0..<length rows])"
    by (simp add: mset_nargsort_desc [OF assms])
  also have "\<dots> = mset (map (\<lambda>i. rows ! i) [0..<length rows])"
    by simp
  also have "\<dots> = mset rows"
    by (simp only: map_nth)
  finally show ?thesis .
qed

lemma sorted_sort_values_desc:
  assumes "is_argsort argsort"
  shows "sorted (rev (map col (sort_values_desc argsort col rows)))"
proof -
  define keys where "keys = map col rows"
  define p where "p = argsort (rev keys)"
  have n: "length keys = length rows" by (simp add: keys_def)
  have p: "j < length rows" if "j \<in> set p" for j
    using argsort_indices(3) [OF assms, of j "rev keys"] that by (simp add: p_def n)
  have "rev (map col (sort_values_desc argsort col rows)) =
      map (\<lambda>j. col (rows ! (rev [0..<length rows] ! j))) p"
    by (simp add: sort_values_desc_def nargsort_desc_def rev_map comp_def keys_def p_def)
  also have "\<dots> = map (\<lambda>j. rev keys ! j) p"
  proof (rule map_cong [OF refl])
    fix j assume "j \<in> set p"
    then have j: "j < length rows" by (rule p)
    then have "rev [0..<length rows] ! j = length rows - Suc j"
      by (simp add: rev_nth)
    moreover have "rev keys ! j = col (rows ! (length rows - Suc j))"
      using j by (simp add: rev_nth keys_def)
    ultimately show "col (rows ! (rev [0..<length rows] ! j)) = rev keys ! j"
      by simp
  qed
  finally show ?thesis
    using argsort_indices(2) [OF assms, of "rev keys"] by (simp add: p_def)
qed

lemma stable_argsort_ok: "is_argsort stable_argsort"
  unfolding is_argsort_def
proof (intro allI conjI)
  fix keys :: "'a list"
  let ?zs = "sort_key fst (zip keys [0..<length keys])"
  have "mset (stable_argsort keys) = mset (map snd (zip keys [0..<length keys]))"
    by (simp only: stable_argsort_def mset_map mset_sort)
  also have "\<dots> = mset [0..<length keys]"
    by (simp only: map_snd_zip length_upt diff_zero)
  finally show "mset (stable_argsort keys) = mset [0..<length keys]" .
  have "map (\<lambda>i. keys ! i) (stable_argsort keys) = map (\<lambda>z. keys ! snd z) ?zs"
    by (simp add: stable_argsort_def comp_def)
  also have "\<dots> = map fst ?zs"
  proof (rule map_cong [OF refl])
    fix z assume "z \<in> set ?zs"
    then have "z \<in> set (zip keys [0..<length keys])" by simp
    then show "keys ! snd z = fst z"
      by (auto simp: set_zip)
  qed
  finally show "sorted (map (\<lambda>i. keys ! i) (stable_argsort keys))"
    by simp
qed

lemma nargsort_desc_pair:
  assumes "is_argsort argsort"
  shows "nargsort_desc argsort [k, k'] = [0, 1] \<or> nargsort_desc argsort [k, k'] = [1, 0]"
proof -
  have m: "mset (nargsort_desc argsort [k, k']) = mset [0, 1]"
    using mset_nargsort_desc [OF assms, of "[k, k']"] by (simp add: upt_rec)
  then have "length (nargsort_desc argsort [k, k']) = length [0 :: nat, 1]"
    by (rule mset_eq_length)
  then obtain i j where ij: "nargsort_desc argsort [k, k'] = [i, j]"
    by (auto simp: length_Suc_conv numeral_2_eq_2)
  have "set [i, j] = set [0, 1]"
    using m unfolding ij by (rule mset_eq_setD)
  then have "i \<in> {0, 1}" and "j \<in> {0, 1}"
    by auto
  moreover have "distinct [i, j] = distinct [0 :: nat, 1]"
    using m unfolding ij by (rule mset_eq_imp_distinct_iff)
  then have "i \<noteq> j"
    by simp
  ultimately have "i = 0 \<and> j = 1 \<or> i = 1 \<and> j = 0"
    by blast
  with ij show ?thesis by auto
qed

section \<open>Bottleneck analysis: what is retained and how it is ranked\<close>

lemma retained_iff:
  "is_int_or_float (avg_time_of v) \<and> gt_zero (avg_time_of v) \<longleftrightarrow> positive_mean v"
  unfolding positive_mean_def by (cases "avg_time_of v") auto

lemma as_float_numeric: "numeric_value v = Some x \<Longrightarrow> as_float v = x"
  by (cases v) auto

lemma performance_data_keys:
  "map (\<lambda>r. (From r, To r)) (performance_data mean_times) =
   map fst (filter (\<lambda>(key, time_info). positive_mean time_info) mean_times)"
  by (induction mean_times rule: performance_data.induct) (simp_all add: Let_def retained_iff)

lemma performance_data_positive:
  "r \<in> set (performance_data mean_times) \<Longrightarrow>
   \<exists>time_info x. ((From r, To r), time_info) \<in> set mean_times \<and>
      numeric_value (avg_time_of time_info) = Some x \<and> 0 < x \<and>
      Avg_Time_hours r = py_round2 (truediv (avg_time_of time_info) 3600)"
proof (induction mean_times rule: performance_data.induct)
  case 1
  then show ?case by simp
next
  case (2 key time_info rest)
  show ?case
  proof (cases "positive_mean time_info")
    case True
    then obtain x where x: "numeric_value (avg_time_of time_info) = Some x" "0 < x"
      by (auto simp: positive_mean_def split: option.splits)
    from 2 True x show ?thesis
      by (auto simp: Let_def retained_iff)
  next
    case False
    with 2 show ?thesis
      by (auto simp: Let_def retained_iff)
  qed
qed

text \<open>
  Claim C5. The keys of the rows built by the filter loop are, in order, exactly the keys
  of the mapping whose mean time is an \<^verbatim>\<open>int\<close> or \<^verbatim>\<open>float\<close> strictly greater than 0 (a
  \<^verbatim>\<open>bool\<close> is an \<^verbatim>\<open>int\<close> for Python's \<^verbatim>\<open>isinstance\<close>, so \<^verbatim>\<open>True\<close> counts as 1); every
  other entry (a string, \<^verbatim>\<open>None\<close>, a dictionary without a usable mean, not-a-number,
  zero, a negative number) is skipped, and the loop has no failing branch. Hence every
  row comes from an entry with a positive mean time. For the mapping
  \<open>{(a,b): -5, (c,d): 0, (e,f): 300}\<close> the only row is the one of \<open>(e,f)\<close>.
\<close>

theorem bottleneck_filter_retains_positive:
  "map (\<lambda>r. (From r, To r)) (performance_data mean_times) =
     map fst (filter (\<lambda>(key, time_info). positive_mean time_info) mean_times) \<and>
   (\<forall>r \<in> set (performance_data mean_times).
      \<exists>time_info x. ((From r, To r), time_info) \<in> set mean_times \<and>
        numeric_value (avg_time_of time_info) = Some x \<and> 0 < x) \<and>
   performance_data [((a, b), PyInt (- 5)), ((c, d), PyInt 0), ((e, f), PyInt 300)] =
     [\<lparr>From = e, To = f, Avg_Time_hours = 8 / 100\<rparr>]"
proof (intro conjI ballI)
  show "map (\<lambda>r. (From r, To r)) (performance_data mean_times) =
     map fst (filter (\<lambda>(key, time_info). positive_mean time_info) mean_times)"
    by (rule performance_data_keys)
next
  fix r assume "r \<in> set (performance_data mean_times)"
  from performance_data_positive [OF this]
  show "\<exists>time_info x. ((From r, To r), time_info) \<in> set mean_times \<and>
        numeric_value (avg_time_of time_info) = Some x \<and> 0 < x"
    by blast
next
  have "py_round2 (fl (300 / 3600)) = of_int 8 / 100"
    by (rule int_hours_value) simp_all
  then show "performance_data [((a, b), PyInt (- 5)), ((c, d), PyInt 0), ((e, f), PyInt 300)] =
     [\<lparr>From = e, To = f, Avg_Time_hours = 8 / 100\<rparr>]"
    by simp
qed

theorem bottleneck_filter_retains_positive_witness:
  "map (\<lambda>r. (From r, To r))
     (performance_data
        [((''a'', ''b''), PyStr ''slow''),
         ((''c'', ''d''), PyDict [(''mean'', PyFloat 7200), (''max'', PyInt 9000)]),
         ((''e'', ''f''), PyNaN),
         ((''g'', ''h''), PyDict [(''median'', PyInt 5)]),
         ((''i'', ''j''), PyNone),
         ((''k'', ''l''), PyFloat (1 / 2))]) =
   [(''c'', ''d''), (''k'', ''l'')]"
  using bottleneck_filter_retains_positive
    [of "[((''a'', ''b''), PyStr ''slow''),
         ((''c'', ''d''), PyDict [(''mean'', PyFloat 7200), (''max'', PyInt 9000)]),
         ((''e'', ''f''), PyNaN),
         ((''g'', ''h''), PyDict [(''median'', PyInt 5)]),
         ((''i'', ''j''), PyNone),
         ((''k'', ''l''), PyFloat (1 / 2))]"]
  by (simp add: positive_mean_def dict_get_def)

lemma hours_shown:
  "py_round2 (float_div 10 3600) = 0"
  "py_round2 (float_div 12 3600) = 0"
  "py_round2 (float_div 3600 3600) = 1"
  "py_round2 (float_div 7200 3600) = 2"
  "py_round2 (float_div 10800 3600) = 3"
  "py_round2 (float_div 14400 3600) = 4"
  "py_round2 (float_div 18000 3600) = 5"
  "py_round2 (float_div 21600 3600) = 6"
  using hours_value [of 10 0] hours_value [of 12 0] hours_value [of 3600 100]
    hours_value [of 7200 200] hours_value [of 10800 300] hours_value [of 14400 400]
    hours_value [of 18000 500] hours_value [of 21600 600]
  by simp_all

lemma int_hours_shown:
  "py_round2 (fl (1 / 360)) = 0"
  "py_round2 (fl (1 / 300)) = 0"
  using int_hours_value [of 10 0] int_hours_value [of 12 0]
  by simp_all

text \<open>
  Claim C6, as stated, fails: the table is sorted by its column of mean times alone, which
  holds hours rounded to two decimals. The transitions \<open>(b,a)\<close> of 10 seconds and \<open>(a,b)\<close>
  of 12 seconds both show 0.0 hours. With a sort that leaves the two equal keys in place
  they stay in the order of the mapping: read on the seconds the table is not
  non-increasing, and read on the hours shown the tie is not in the order of the pairs.
\<close>

theorem bottleneck_ties_counterexample:
  "perf_df stable_argsort [((''b'', ''a''), PyInt 10), ((''a'', ''b''), PyInt 12)] =
     [\<lparr>From = ''b'', To = ''a'', Avg_Time_hours = 0\<rparr>,
      \<lparr>From = ''a'', To = ''b'', Avg_Time_hours = 0\<rparr>] \<and>
   \<not> ranked_with_ties_by_pair
       (perf_df stable_argsort [((''b'', ''a''), PyInt 10), ((''a'', ''b''), PyInt 12)]) \<and>
   \<not> ranked_by_seconds [((''b'', ''a''), PyInt 10), ((''a'', ''b''), PyInt 12)]
       (perf_df stable_argsort [((''b'', ''a''), PyInt 10), ((''a'', ''b''), PyInt 12)])"
  by (simp add: ranked_with_ties_by_pair_def ranked_by_seconds_def mean_seconds_def
      perf_df_def sort_values_desc_def nargsort_desc_def stable_argsort_def int_hours_shown
      Let_def)

text \<open>
  The failure does not hang on how the sort orders equal keys. The sort sees the column
  of hours alone, which is the same for the mapping above and for the mapping that lists
  \<open>(a,b)\<close> of 12 seconds before \<open>(b,a)\<close> of 10 seconds; so whatever it does with two equal
  keys, for one of the two mappings the table is the one above, with \<open>(b,a)\<close> of 10 seconds
  before \<open>(a,b)\<close> of 12 seconds.
\<close>

lemma bottleneck_ties_any_sort:
  assumes "is_argsort argsort"
  shows "perf_df argsort [((''b'', ''a''), PyInt 10), ((''a'', ''b''), PyInt 12)] =
           [\<lparr>From = ''b'', To = ''a'', Avg_Time_hours = 0\<rparr>,
            \<lparr>From = ''a'', To = ''b'', Avg_Time_hours = 0\<rparr>] \<or>
         perf_df argsort [((''a'', ''b''), PyInt 12), ((''b'', ''a''), PyInt 10)] =
           [\<lparr>From = ''b'', To = ''a'', Avg_Time_hours = 0\<rparr>,
            \<lparr>From = ''a'', To = ''b'', Avg_Time_hours = 0\<rparr>]"
proof -
  from nargsort_desc_pair [OF assms, of 0 0]
  show ?thesis
  proof
    assume "nargsort_desc argsort [0, 0 :: rat] = [0, 1]"
    then have "perf_df argsort [((''b'', ''a''), PyInt 10), ((''a'', ''b''), PyInt 12)] =
           [\<lparr>From = ''b'', To = ''a'', Avg_Time_hours = 0\<rparr>,
            \<lparr>From = ''a'', To = ''b'', Avg_Time_hours = 0\<rparr>]"
      by (simp add: perf_df_def sort_values_desc_def int_hours_shown Let_def)
    then show ?thesis ..
  next
    assume "nargsort_desc argsort [0, 0 :: rat] = [1, 0]"
    then have "perf_df argsort [((''a'', ''b''), PyInt 12), ((''b'', ''a''), PyInt 10)] =
           [\<lparr>From = ''b'', To = ''a'', Avg_Time_hours = 0\<rparr>,
            \<lparr>From = ''a'', To = ''b'', Avg_Time_hours = 0\<rparr>]"
      by (simp add: perf_df_def sort_values_desc_def int_hours_shown Let_def)
    then show ?thesis ..
  qed
qed

text \<open>
  Claim C6, amended. Whatever order the sort gives to equal keys, the ranked table holds
  the retained rows, sorted non-increasing by their mean time in hours rounded to two
  decimals, the value the table shows; nothing orders rows that show the same value by
  their activity pair; and when a row is retained the headline is the first five rows of
  the table.
\<close>

theorem bottleneck_ranking:
  assumes "is_argsort argsort"
  shows "sorted (rev (map Avg_Time_hours (perf_df argsort mean_times))) \<and>
    mset (perf_df argsort mean_times) = mset (performance_data mean_times) \<and>
    (performance_data mean_times \<noteq> [] \<longrightarrow>
       bottleneck_analysis argsort mean_times =
         Bottleneck_Table (perf_df argsort mean_times) (take 5 (perf_df argsort mean_times)))"
  by (simp add: perf_df_def bottleneck_analysis_def sorted_sort_values_desc [OF assms]
      mset_sort_values_desc [OF assms])

theorem bottleneck_ranking_witness:
  "bottleneck_analysis stable_argsort
     [((''a'', ''b''), PyFloat 3600), ((''c'', ''d''), PyInt 0), ((''e'', ''f''), PyFloat 7200),
      ((''g'', ''h''), PyFloat 10800), ((''i'', ''j''), PyFloat 14400),
      ((''k'', ''l''), PyFloat 18000), ((''m'', ''n''), PyFloat 21600)] =
   Bottleneck_Table
     [\<lparr>From = ''m'', To = ''n'', Avg_Time_hours = 6\<rparr>,
      \<lparr>From = ''k'', To = ''l'', Avg_Time_hours = 5\<rparr>,
      \<lparr>From = ''i'', To = ''j'', Avg_Time_hours = 4\<rparr>,
      \<lparr>From = ''g'', To = ''h'', Avg_Time_hours = 3\<rparr>,
      \<lparr>From = ''e'', To = ''f'', Avg_Time_hours = 2\<rparr>,
      \<lparr>From = ''a'', To = ''b'', Avg_Time_hours = 1\<rparr>]
     [\<lparr>From = ''m'', To = ''n'', Avg_Time_hours = 6\<rparr>,
      \<lparr>From = ''k'', To = ''l'', Avg_Time_hours = 5\<rparr>,
      \<lparr>From = ''i'', To = ''j'', Avg_Time_hours = 4\<rparr>,
      \<lparr>From = ''g'', To = ''h'', Avg_Time_hours = 3\<rparr>,
      \<lparr>From = ''e'', To = ''f'', Avg_Time_hours = 2\<rparr>]"
  using bottleneck_ranking
    [OF stable_argsort_ok,
     of "[((''a'', ''b''), PyFloat 3600), ((''c'', ''d''), PyInt 0), ((''e'', ''f''), PyFloat 7200),
      ((''g'', ''h''), PyFloat 10800), ((''i'', ''j''), PyFloat 14400),
      ((''k'', ''l''), PyFloat 18000), ((''m'', ''n''), PyFloat 21600)]"]
  by (simp add: perf_df_def sort_values_desc_def nargsort_desc_def stable_argsort_def
      hours_shown Let_def)

section \<open>Case duration statistics on an empty log\<close>

text \<open>
  Claim C3, as stated, fails for the mean: on an empty list of case durations line 71
  sets the mean to 0, and the metric shows \<^verbatim>\<open>0.0 hours\<close>, exactly what a log whose only case
  has duration zero shows.
\<close>

theorem empty_log_mean_is_zero_counterexample:
  "Avg_Case_Duration (case_duration_metrics []) = Hours 0 \<and>
   Avg_Case_Duration (case_duration_metrics []) = Avg_Case_Duration (case_duration_metrics [0])"
  by (simp add: case_duration_metrics_def avg_duration_def)

text \<open>
  Claim C3, amended. For an empty event log the metrics for the minimum and the maximum
  case duration show the sentinel \<^verbatim>\<open>N/A\<close>, the metric for the mean shows 0 hours, and no
  step fails.
\<close>

theorem empty_log_case_duration_metrics:
  "event_log = [] \<Longrightarrow>
   case_duration_metrics (get_all_case_durations case_duration event_log) =
     \<lparr>Avg_Case_Duration = Hours 0, Min_Case_Duration = NA, Max_Case_Duration = NA\<rparr>"
  by (simp add: case_duration_metrics_def get_all_case_durations_def avg_duration_def)

theorem empty_log_case_duration_metrics_witness:
  "case_duration_metrics (get_all_case_durations (\<lambda>trace. 0) []) =
     \<lparr>Avg_Case_Duration = Hours 0, Min_Case_Duration = NA, Max_Case_Duration = NA\<rparr>"
  using empty_log_case_duration_metrics [of "[]" "\<lambda>trace. 0"] by simp

section \<open>The frequency count\<close>


lemma keys_count_value:
  "map fst (count_value v cs) = (if v \<in> fst ` set cs then map fst cs else map fst cs @ [v])"
  by (induction v cs rule: count_value.induct) (auto simp: image_iff)

lemma set_keys_count_value: "fst ` set (count_value v cs) = insert v (fst ` set cs)"
proof -
  have "set (map fst (count_value v cs)) = insert v (set (map fst cs))"
    unfolding keys_count_value by auto
  then show ?thesis by simp
qed


lemma sum_count_value: "sum_list (map snd (count_value v cs)) = sum_list (map snd cs) + 1"
  by (induction v cs rule: count_value.induct) auto



lemma keys_fold_count_value:
  "fst ` set (fold count_value vs cs) = fst ` set cs \<union> set vs"
  by (induction vs arbitrary: cs) (simp_all add: set_keys_count_value)

lemma sum_fold_count_value:
  "sum_list (map snd (fold count_value vs cs)) = sum_list (map snd cs) + length vs"
  by (induction vs arbitrary: cs) (simp_all add: sum_count_value)



lemma counts_keys:
  "fst ` set (get_event_attribute_values event_log) = concept_name ` set (concat event_log)"
  by (simp add: get_event_attribute_values_def keys_fold_count_value)

lemma counts_sum:
  "sum_list (map snd (get_event_attribute_values event_log)) = length (concat event_log)"
  by (simp add: get_event_attribute_values_def sum_fold_count_value)


section \<open>The timing loop\<close>

lemma trace_samples_simps [simp]:
  "trace_samples [] = []"
  "trace_samples [x] = []"
  "trace_samples (p # x # rest) =
     (concept_name x, stamp x - stamp p) # trace_samples (x # rest)"
  by (simp_all add: trace_samples_def)

lemma stamp_Some [simp]: "time_timestamp x = Some t \<Longrightarrow> stamp x = t"
  by (simp add: stamp_def)

lemma walk_events_result:
  assumes "\<forall>x \<in> set es. time_timestamp x \<noteq> None"
    and "\<forall>p. prev = Some p \<longrightarrow> time_timestamp p \<noteq> None"
  shows "\<exists>tm'. walk_events prev es tm = Inr tm' \<and>
           (\<forall>a. (tm' a \<noteq> None) = (tm a \<noteq> None \<or> a \<in> concept_name ` set es)) \<and>
           (\<forall>a. case_option [] id (tm' a) =
                case_option [] id (tm a) @
                map snd (filter (\<lambda>s. fst s = a)
                  (trace_samples (case_option [] (\<lambda>p. [p]) prev @ es))))"
  using assms
proof (induction es arbitrary: prev tm)
  case Nil
  then show ?case by (cases prev) simp_all
next
  case (Cons x rest)
  define a0 where "a0 = concept_name x"
  define tm1 where "tm1 = (if tm a0 = None then tm(a0 \<mapsto> []) else tm)"
  have dom1: "(tm1 a \<noteq> None) = (tm a \<noteq> None \<or> a = a0)" for a
    by (auto simp: tm1_def)
  have dur1: "case_option [] id (tm1 a) = case_option [] id (tm a)" for a
    by (auto simp: tm1_def)
  from Cons.prems obtain t where t: "time_timestamp x = Some t"
    by auto
  have rest_ok: "\<forall>y \<in> set rest. time_timestamp y \<noteq> None"
    using Cons.prems by simp
  have x_ok: "\<forall>p. Some x = Some p \<longrightarrow> time_timestamp p \<noteq> None"
    using t by simp
  show ?case
  proof (cases prev)
    case None
    from Cons.IH [OF rest_ok x_ok, of tm1] obtain tm' where
      w: "walk_events (Some x) rest tm1 = Inr tm'"
      and d: "\<And>a. (tm' a \<noteq> None) = (tm1 a \<noteq> None \<or> a \<in> concept_name ` set rest)"
      and s: "\<And>a. case_option [] id (tm' a) =
                case_option [] id (tm1 a) @
                map snd (filter (\<lambda>s. fst s = a) (trace_samples ([x] @ rest)))"
      by auto
    have "walk_events None (x # rest) tm = walk_events (Some x) rest tm1"
      unfolding a0_def tm1_def by (simp add: Let_def)
    then have "walk_events prev (x # rest) tm = Inr tm'"
      using None w by simp
    moreover have "\<forall>a. (tm' a \<noteq> None) = (tm a \<noteq> None \<or> a \<in> concept_name ` set (x # rest))"
      using d dom1 by (auto simp: a0_def)
    moreover have "\<forall>a. case_option [] id (tm' a) =
                case_option [] id (tm a) @
                map snd (filter (\<lambda>s. fst s = a)
                  (trace_samples (case_option [] (\<lambda>p. [p]) prev @ x # rest)))"
      using s dur1 None by simp
    ultimately show ?thesis by blast
  next
    case (Some p)
    from Cons.prems(2) Some obtain pt where pt: "time_timestamp p = Some pt"
      by auto
    obtain ds where ds: "tm1 a0 = Some ds"
      using dom1 [of a0] by auto
    define tm2 where "tm2 = tm1(a0 \<mapsto> ds @ [t - pt])"
    have dom2: "(tm2 a \<noteq> None) = (tm1 a \<noteq> None)" for a
      using ds by (auto simp: tm2_def)
    have dur2: "case_option [] id (tm2 a) =
        case_option [] id (tm1 a) @ (if a = a0 then [t - pt] else [])" for a
      using ds by (auto simp: tm2_def)
    from Cons.IH [OF rest_ok x_ok, of tm2] obtain tm' where
      w: "walk_events (Some x) rest tm2 = Inr tm'"
      and d: "\<And>a. (tm' a \<noteq> None) = (tm2 a \<noteq> None \<or> a \<in> concept_name ` set rest)"
      and s: "\<And>a. case_option [] id (tm' a) =
                case_option [] id (tm2 a) @
                map snd (filter (\<lambda>s. fst s = a) (trace_samples ([x] @ rest)))"
      by auto
    have "walk_events (Some p) (x # rest) tm = walk_events (Some x) rest tm2"
      using t pt ds unfolding tm2_def a0_def tm1_def by (simp add: Let_def)
    then have "walk_events prev (x # rest) tm = Inr tm'"
      using Some w by simp
    moreover have "\<forall>a. (tm' a \<noteq> None) = (tm a \<noteq> None \<or> a \<in> concept_name ` set (x # rest))"
      using d dom1 dom2 by (auto simp: a0_def)
    moreover have "\<forall>a. case_option [] id (tm' a) =
                case_option [] id (tm a) @
                map snd (filter (\<lambda>s. fst s = a)
                  (trace_samples (case_option [] (\<lambda>p. [p]) prev @ x # rest)))"
      using s dur1 dur2 Some t pt by (simp add: a0_def)
    ultimately show ?thesis by blast
  qed
qed

lemma sorted_events_of_Inr:
  "\<forall>x \<in> set trace. time_timestamp x \<noteq> None \<Longrightarrow>
   sorted_events_of trace = Inr (sort_key stamp trace)"
  by (simp add: sorted_events_of_def)

lemma samples_of_simps [simp]:
  "samples_of a [] = []"
  "samples_of a (trace # rest) =
     map snd (filter (\<lambda>s. fst s = a) (trace_samples (sort_key stamp trace))) @ samples_of a rest"
  by (simp_all add: samples_of_def)

lemma timing_loop_result:
  assumes "\<forall>trace \<in> set event_log. \<forall>x \<in> set trace. time_timestamp x \<noteq> None"
  shows "\<exists>tm'. timing_loop event_log tm = Inr tm' \<and>
           (\<forall>a. (tm' a \<noteq> None) = (tm a \<noteq> None \<or> a \<in> concept_name ` set (concat event_log))) \<and>
           (\<forall>a. case_option [] id (tm' a) = case_option [] id (tm a) @ samples_of a event_log)"
  using assms
proof (induction event_log arbitrary: tm)
  case Nil
  then show ?case by simp
next
  case (Cons trace rest)
  have tr: "\<forall>x \<in> set (sort_key stamp trace). time_timestamp x \<noteq> None"
    using Cons.prems by simp
  have no_prev: "\<forall>p. (None :: event option) = Some p \<longrightarrow> time_timestamp p \<noteq> None"
    by simp
  from walk_events_result [OF tr no_prev, of tm] obtain tm1 where
    w: "walk_events None (sort_key stamp trace) tm = Inr tm1"
    and d1: "\<And>a. (tm1 a \<noteq> None) = (tm a \<noteq> None \<or> a \<in> concept_name ` set trace)"
    and s1: "\<And>a. case_option [] id (tm1 a) =
               case_option [] id (tm a) @
               map snd (filter (\<lambda>s. fst s = a) (trace_samples (sort_key stamp trace)))"
    by auto
  have rest_ok: "\<forall>trace \<in> set rest. \<forall>x \<in> set trace. time_timestamp x \<noteq> None"
    using Cons.prems by simp
  from Cons.IH [OF rest_ok, of tm1] obtain tm' where
    l: "timing_loop rest tm1 = Inr tm'"
    and d: "\<And>a. (tm' a \<noteq> None) = (tm1 a \<noteq> None \<or> a \<in> concept_name ` set (concat rest))"
    and s: "\<And>a. case_option [] id (tm' a) = case_option [] id (tm1 a) @ samples_of a rest"
    by auto
  have "sorted_events_of trace = Inr (sort_key stamp trace)"
    using Cons.prems by (simp add: sorted_events_of_Inr)
  then have "timing_loop (trace # rest) tm = Inr tm'"
    using w l by (simp add: and_then_def)
  moreover have "\<forall>a. (tm' a \<noteq> None) =
      (tm a \<noteq> None \<or> a \<in> concept_name ` set (concat (trace # rest)))"
    using d d1 by auto
  moreover have "\<forall>a. case_option [] id (tm' a) =
      case_option [] id (tm a) @ samples_of a (trace # rest)"
    using s s1 by simp
  ultimately show ?case by blast
qed

lemma activity_timing_result:
  assumes "\<forall>trace \<in> set event_log. \<forall>x \<in> set trace. time_timestamp x \<noteq> None"
  shows "\<exists>timing. activity_timing event_log = Inr timing \<and>
           (\<forall>a. timing a =
              (if a \<in> concept_name ` set (concat event_log)
               then Some (samples_of a event_log) else None))"
proof -
  from timing_loop_result [OF assms, of Map.empty] obtain tm' where
    l: "timing_loop event_log Map.empty = Inr tm'"
    and d: "\<And>a. (tm' a \<noteq> None) = (a \<in> concept_name ` set (concat event_log))"
    and s: "\<And>a. case_option [] id (tm' a) = samples_of a event_log"
    by auto
  have "tm' a =
      (if a \<in> concept_name ` set (concat event_log) then Some (samples_of a event_log) else None)"
    for a
    using d [of a] s [of a] by (cases "tm' a") auto
  then show ?thesis
    using l by (simp add: activity_timing_def)
qed

lemma timing_loop_Inr_timestamps:
  "timing_loop event_log tm = Inr tm' \<Longrightarrow>
   \<forall>trace \<in> set event_log. \<forall>x \<in> set trace. time_timestamp x \<noteq> None"
proof (induction event_log arbitrary: tm)
  case Nil
  then show ?case by simp
next
  case (Cons trace rest)
  from Cons.prems have ok: "\<forall>x \<in> set trace. time_timestamp x \<noteq> None"
    by (auto simp: and_then_def sorted_events_of_def split: if_splits)
  from Cons.prems obtain tm1 where "timing_loop rest tm1 = Inr tm'"
    by (auto simp: and_then_def split: sum.splits)
  from Cons.IH [OF this] ok show ?case by simp
qed

lemma activity_rows_Inr:
  "activity_rows activity_counts cs timing = Inr rows \<Longrightarrow>
   map (\<lambda>r. (Activity r, Count r)) rows = cs \<and>
   (\<forall>r \<in> set rows. Percentage r =
      py_round2 (float_mul
        (fl (of_nat (Count r) / of_nat (sum_list (map snd activity_counts)))) 100)) \<and>
   (\<forall>r \<in> set rows. timing (Activity r) \<noteq> None \<and>
      Sample_Size r = length (case_option [] id (timing (Activity r)))) \<and>
   (cs \<noteq> [] \<longrightarrow> sum_list (map snd activity_counts) \<noteq> 0)"
proof (induction cs arbitrary: rows)
  case Nil
  then show ?case by simp
next
  case (Cons c cs)
  obtain a n where c: "c = (a, n)" by (cases c)
  from Cons.prems c obtain durations where du: "timing a = Some durations"
    by (auto split: option.splits)
  from Cons.prems c du have nz: "sum_list (map snd activity_counts) \<noteq> 0"
    by (auto simp: and_then_def py_div_def split: if_splits)
  then have pd: "py_div (of_nat n) (of_nat (sum_list (map snd activity_counts))) =
      Inr (fl (of_nat n / of_nat (sum_list (map snd activity_counts))))"
    unfolding py_div_def by (simp only: of_nat_eq_0_iff if_False)
  from Cons.prems c du obtain rows' where
    r': "activity_rows activity_counts cs timing = Inr rows'"
    by (auto simp: and_then_def py_div_def split: sum.splits if_splits)
  have "activity_rows activity_counts ((a, n) # cs) timing = Inr
    (\<lparr>Activity = a, Count = n,
      Percentage = py_round2 (float_mul
        (fl (of_nat n / of_nat (sum_list (map snd activity_counts)))) 100),
      Min_Duration_hours =
        (if durations \<noteq> [] then py_round2 (float_div (py_min durations) 3600) else 0),
      Avg_Duration_hours =
        (if durations \<noteq> []
         then py_round2
           (float_div (float_div (sum_list durations) (of_nat (length durations))) 3600)
         else 0),
      Max_Duration_hours =
        (if durations \<noteq> [] then py_round2 (float_div (py_max durations) 3600) else 0),
      Sample_Size = length durations\<rparr> # rows')"
    by (simp only: activity_rows.simps du option.case pd r' and_then_def sum.case)
  with Cons.prems c have rows: "rows =
     \<lparr>Activity = a, Count = n,
      Percentage = py_round2 (float_mul
        (fl (of_nat n / of_nat (sum_list (map snd activity_counts)))) 100),
      Min_Duration_hours =
        (if durations \<noteq> [] then py_round2 (float_div (py_min durations) 3600) else 0),
      Avg_Duration_hours =
        (if durations \<noteq> []
         then py_round2
           (float_div (float_div (sum_list durations) (of_nat (length durations))) 3600)
         else 0),
      Max_Duration_hours =
        (if durations \<noteq> [] then py_round2 (float_div (py_max durations) 3600) else 0),
      Sample_Size = length durations\<rparr> # rows'"
    by (simp only: sum.inject)
  from Cons.IH [OF r'] show ?case
    using c du nz by (simp add: rows)
qed

lemma activity_rows_ok:
  assumes "\<forall>a \<in> fst ` set cs. timing a \<noteq> None"
    and "sum_list (map snd activity_counts) \<noteq> 0"
  shows "\<exists>rows. activity_rows activity_counts cs timing = Inr rows"
  using assms(1)
proof (induction cs)
  case Nil
  then show ?case by simp
next
  case (Cons c cs)
  obtain a n where c: "c = (a, n)" by (cases c)
  from Cons.prems c obtain durations where du: "timing a = Some durations"
    by auto
  from Cons.IH Cons.prems obtain rows' where
    "activity_rows activity_counts cs timing = Inr rows'"
    by auto
  then show ?case
    using c du assms(2) by (simp add: and_then_def py_div_def)
qed

section \<open>Activity timing: the duration samples\<close>

lemma sum_length_filter_fst:
  assumes "finite A" and "fst ` set xs \<subseteq> A"
  shows "(\<Sum>a \<in> A. length (filter (\<lambda>s. fst s = a) xs)) = length xs"
  using assms(2)
proof (induction xs)
  case Nil
  show ?case by simp
next
  case (Cons x xs)
  then have "fst x \<in> A" and IH: "(\<Sum>a \<in> A. length (filter (\<lambda>s. fst s = a) xs)) = length xs"
    by simp_all
  have "(\<Sum>a \<in> A. length (filter (\<lambda>s. fst s = a) (x # xs))) =
      (\<Sum>a \<in> A. (if fst x = a then 1 else 0) + length (filter (\<lambda>s. fst s = a) xs))"
    by (rule sum.cong) simp_all
  also have "\<dots> = (\<Sum>a \<in> A. if fst x = a then 1 else 0) +
      (\<Sum>a \<in> A. length (filter (\<lambda>s. fst s = a) xs))"
    by (rule sum.distrib)
  also have "(\<Sum>a \<in> A. if fst x = a then 1 else 0) = (1 :: nat)"
    using assms(1) \<open>fst x \<in> A\<close> by simp
  finally show ?case
    using IH by simp
qed

lemma trace_samples_length: "length (trace_samples s) = length s - 1"
  by (simp add: trace_samples_def)

lemma trace_samples_labels: "fst ` set (trace_samples s) \<subseteq> concept_name ` set s"
proof -
  have "set (zip s (tl s)) \<subseteq> set s \<times> set (tl s)"
    by (auto dest: set_zip_leftD set_zip_rightD)
  moreover have "set (tl s) \<subseteq> set s"
    by (cases s) auto
  ultimately show ?thesis
    by (auto simp: trace_samples_def)
qed

lemma sum_length_samples_of:
  assumes "finite A" and "concept_name ` set (concat event_log) \<subseteq> A"
  shows "(\<Sum>a \<in> A. length (samples_of a event_log)) =
         sum_list (map (\<lambda>trace. length trace - 1) event_log)"
  using assms(2)
proof (induction event_log)
  case Nil
  show ?case by simp
next
  case (Cons trace rest)
  let ?s = "trace_samples (sort_key stamp trace)"
  have "fst ` set ?s \<subseteq> concept_name ` set (sort_key stamp trace)"
    by (rule trace_samples_labels)
  then have sub: "fst ` set ?s \<subseteq> A"
    using Cons.prems by auto
  have "concept_name ` set (concat rest) \<subseteq> A"
    using Cons.prems by auto
  then have IH: "(\<Sum>a \<in> A. length (samples_of a rest)) =
      sum_list (map (\<lambda>trace. length trace - 1) rest)"
    by (rule Cons.IH)
  have "(\<Sum>a \<in> A. length (samples_of a (trace # rest))) =
      (\<Sum>a \<in> A. length (filter (\<lambda>s. fst s = a) ?s) + length (samples_of a rest))"
    by simp
  also have "\<dots> = (\<Sum>a \<in> A. length (filter (\<lambda>s. fst s = a) ?s)) +
      (\<Sum>a \<in> A. length (samples_of a rest))"
    by (rule sum.distrib)
  also have "(\<Sum>a \<in> A. length (filter (\<lambda>s. fst s = a) ?s)) = length ?s"
    using assms(1) sub by (rule sum_length_filter_fst)
  finally show ?case
    using IH by (simp add: trace_samples_length)
qed


text \<open>
  Claim C2. On an event log whose events all carry their timestamp the timing loop
  returns, and the list it has stored for an activity is, trace after trace, the seconds
  elapsed from the preceding event of the time-sorted trace to each event of that
  activity that is not the first of its trace; an activity that only ever opens a trace
  has the empty list, and a label that does not occur has no entry. The samples of all
  activities together are one for each event that is not the first of its trace, so a first
  event contributes to no sample. For the two traces
  \<open>[(x,t0),(y,t0+60)]\<close> and \<open>[(x,t0),(y,t0+120)]\<close> the activity \<open>y\<close> is counted twice and has
  the samples \<open>[60, 120]\<close>, of mean 90.
\<close>

theorem activity_timing_samples:
  "((\<forall>trace \<in> set event_log. \<forall>e \<in> set trace. time_timestamp e \<noteq> None) \<longrightarrow>
      (\<exists>timing. activity_timing event_log = Inr timing \<and>
         (\<forall>a. timing a =
            (if a \<in> concept_name ` set (concat event_log)
             then Some (samples_of a event_log) else None)))) \<and>
   (\<Sum>a \<in> concept_name ` set (concat event_log). length (samples_of a event_log)) =
     sum_list (map (\<lambda>trace. length trace - 1) event_log) \<and>
   (x \<noteq> y \<longrightarrow>
      (\<exists>timing durations.
         activity_timing
           [[\<lparr>concept_name = x, time_timestamp = Some t0\<rparr>,
             \<lparr>concept_name = y, time_timestamp = Some (t0 + 60)\<rparr>],
            [\<lparr>concept_name = x, time_timestamp = Some t0\<rparr>,
             \<lparr>concept_name = y, time_timestamp = Some (t0 + 120)\<rparr>]] = Inr timing \<and>
         timing x = Some [] \<and> timing y = Some durations \<and> durations = [60, 120] \<and>
         sum_list durations / of_nat (length durations) = 90 \<and>
         map_of (get_event_attribute_values
           [[\<lparr>concept_name = x, time_timestamp = Some t0\<rparr>,
             \<lparr>concept_name = y, time_timestamp = Some (t0 + 60)\<rparr>],
            [\<lparr>concept_name = x, time_timestamp = Some t0\<rparr>,
             \<lparr>concept_name = y, time_timestamp = Some (t0 + 120)\<rparr>]]) y = Some 2))"
proof (intro conjI impI)
  assume "\<forall>trace \<in> set event_log. \<forall>e \<in> set trace. time_timestamp e \<noteq> None"
  then show "\<exists>timing. activity_timing event_log = Inr timing \<and>
         (\<forall>a. timing a =
            (if a \<in> concept_name ` set (concat event_log)
             then Some (samples_of a event_log) else None))"
    by (rule activity_timing_result)
next
  show "(\<Sum>a \<in> concept_name ` set (concat event_log). length (samples_of a event_log)) =
     sum_list (map (\<lambda>trace. length trace - 1) event_log)"
    by (rule sum_length_samples_of) simp_all
next
  assume "x \<noteq> y"
  then show "\<exists>timing durations.
         activity_timing
           [[\<lparr>concept_name = x, time_timestamp = Some t0\<rparr>,
             \<lparr>concept_name = y, time_timestamp = Some (t0 + 60)\<rparr>],
            [\<lparr>concept_name = x, time_timestamp = Some t0\<rparr>,
             \<lparr>concept_name = y, time_timestamp = Some (t0 + 120)\<rparr>]] = Inr timing \<and>
         timing x = Some [] \<and> timing y = Some durations \<and> durations = [60, 120] \<and>
         sum_list durations / of_nat (length durations) = 90 \<and>
         map_of (get_event_attribute_values
           [[\<lparr>concept_name = x, time_timestamp = Some t0\<rparr>,
             \<lparr>concept_name = y, time_timestamp = Some (t0 + 60)\<rparr>],
            [\<lparr>concept_name = x, time_timestamp = Some t0\<rparr>,
             \<lparr>concept_name = y, time_timestamp = Some (t0 + 120)\<rparr>]]) y = Some 2"
    by (simp add: activity_timing_def and_then_def sorted_events_of_def stamp_def
        get_event_attribute_values_def)
qed

theorem activity_timing_samples_witness:
  "map_sum id (\<lambda>timing. (timing ''a'', timing ''b'', timing ''c''))
     (activity_timing
        [[\<lparr>concept_name = ''b'', time_timestamp = Some 30\<rparr>,
          \<lparr>concept_name = ''a'', time_timestamp = Some 0\<rparr>,
          \<lparr>concept_name = ''b'', time_timestamp = Some 10\<rparr>],
         [\<lparr>concept_name = ''a'', time_timestamp = Some 5\<rparr>,
          \<lparr>concept_name = ''b'', time_timestamp = Some 12\<rparr>]]) =
   Inr (Some [], Some [10, 20, 7], None)"
  using activity_timing_samples
    [of "[[\<lparr>concept_name = ''b'', time_timestamp = Some 30\<rparr>,
          \<lparr>concept_name = ''a'', time_timestamp = Some 0\<rparr>,
          \<lparr>concept_name = ''b'', time_timestamp = Some 10\<rparr>],
         [\<lparr>concept_name = ''a'', time_timestamp = Some 5\<rparr>,
          \<lparr>concept_name = ''b'', time_timestamp = Some 12\<rparr>]]" "''x''" "''y''" 0]
  by (auto simp: stamp_def)

section \<open>The activity table\<close>

lemma counts_total_nonzero:
  "get_event_attribute_values event_log \<noteq> [] \<Longrightarrow>
   sum_list (map snd (get_event_attribute_values event_log)) \<noteq> 0"
proof -
  assume "get_event_attribute_values event_log \<noteq> []"
  then have "fst ` set (get_event_attribute_values event_log) \<noteq> {}"
    by simp
  then have "concat event_log \<noteq> []"
    unfolding counts_keys by auto
  then show ?thesis
    by (simp only: counts_sum length_0_conv not_False_eq_True)
qed

lemma activity_rows_of_log:
  assumes "activity_timing event_log = Inr timing"
  shows "\<exists>rows. activity_rows (get_event_attribute_values event_log)
           (get_event_attribute_values event_log) timing = Inr rows"
proof (cases "get_event_attribute_values event_log = []")
  case True
  then show ?thesis by simp
next
  case False
  have ts: "\<forall>trace \<in> set event_log. \<forall>x \<in> set trace. time_timestamp x \<noteq> None"
    using assms unfolding activity_timing_def by (rule timing_loop_Inr_timestamps)
  from activity_timing_result [OF ts] assms
  have dom: "\<forall>a \<in> fst ` set (get_event_attribute_values event_log). timing a \<noteq> None"
    unfolding counts_keys by auto
  from dom counts_total_nonzero [OF False] show ?thesis
    by (rule activity_rows_ok)
qed

text \<open>
  Claim C10. Whenever the timing loop has run to its end, every activity label among the
  keys of the frequency count has an entry in \<open>activity_timing\<close> (the loop has made one for
  the activity of every event of every trace), so the loop that builds the activity table
  returns its rows, one for each key, and raises no \<^verbatim>\<open>KeyError\<close>. The timing loop does run
  to its end on every event log whose events carry their timestamp.
\<close>

theorem activity_table_lookup_defined:
  "(activity_timing event_log = Inr timing \<longrightarrow>
      (\<forall>a \<in> fst ` set (get_event_attribute_values event_log). timing a \<noteq> None) \<and>
      (\<forall>trace \<in> set event_log. \<forall>e \<in> set trace. timing (concept_name e) \<noteq> None) \<and>
      (\<exists>rows. activity_data event_log = Inr rows \<and>
         map Activity rows = map fst (get_event_attribute_values event_log))) \<and>
   ((\<forall>trace \<in> set event_log. \<forall>e \<in> set trace. time_timestamp e \<noteq> None) \<longrightarrow>
      (\<exists>timing'. activity_timing event_log = Inr timing'))"
proof (intro conjI impI)
  assume at: "activity_timing event_log = Inr timing"
  have ts: "\<forall>trace \<in> set event_log. \<forall>x \<in> set trace. time_timestamp x \<noteq> None"
    using at unfolding activity_timing_def by (rule timing_loop_Inr_timestamps)
  from activity_timing_result [OF ts] at
  have dom: "timing a \<noteq> None" if "a \<in> concept_name ` set (concat event_log)" for a
    using that by auto
  show "\<forall>a \<in> fst ` set (get_event_attribute_values event_log). timing a \<noteq> None"
    unfolding counts_keys using dom by blast
  show "\<forall>trace \<in> set event_log. \<forall>e \<in> set trace. timing (concept_name e) \<noteq> None"
    using dom by auto
  from activity_rows_of_log [OF at] obtain rows where
    rows: "activity_rows (get_event_attribute_values event_log)
             (get_event_attribute_values event_log) timing = Inr rows"
    by blast
  from activity_rows_Inr [OF rows]
  have "map (\<lambda>r. (Activity r, Count r)) rows = get_event_attribute_values event_log"
    by blast
  then have "map fst (map (\<lambda>r. (Activity r, Count r)) rows) =
      map fst (get_event_attribute_values event_log)"
    by simp
  then have "map Activity rows = map fst (get_event_attribute_values event_log)"
    by (simp add: comp_def)
  moreover have "activity_data event_log = Inr rows"
    using at rows by (simp add: activity_data_def and_then_def)
  ultimately show "\<exists>rows. activity_data event_log = Inr rows \<and>
         map Activity rows = map fst (get_event_attribute_values event_log)"
    by blast
next
  assume "\<forall>trace \<in> set event_log. \<forall>e \<in> set trace. time_timestamp e \<noteq> None"
  from activity_timing_result [OF this]
  show "\<exists>timing'. activity_timing event_log = Inr timing'"
    by blast
qed

theorem activity_table_lookup_defined_witness:
  "map_sum id (map Activity)
     (activity_data
        [[\<lparr>concept_name = ''register'', time_timestamp = Some 0\<rparr>,
          \<lparr>concept_name = ''check'', time_timestamp = Some 40\<rparr>],
         [\<lparr>concept_name = ''pay'', time_timestamp = Some 90\<rparr>,
          \<lparr>concept_name = ''register'', time_timestamp = Some 10\<rparr>]]) =
   Inr [''register'', ''check'', ''pay'']"
proof -
  let ?log = "[[\<lparr>concept_name = ''register'', time_timestamp = Some 0\<rparr>,
          \<lparr>concept_name = ''check'', time_timestamp = Some 40\<rparr>],
         [\<lparr>concept_name = ''pay'', time_timestamp = Some 90\<rparr>,
          \<lparr>concept_name = ''register'', time_timestamp = Some 10\<rparr>]]"
  have ts: "\<forall>trace \<in> set ?log. \<forall>e \<in> set trace. time_timestamp e \<noteq> None"
    by simp
  have keys: "map fst (get_event_attribute_values ?log) = [''register'', ''check'', ''pay'']"
    by (simp add: get_event_attribute_values_def)
  from activity_table_lookup_defined [of ?log] ts
  obtain timing' where t: "activity_timing ?log = Inr timing'"
    by blast
  from activity_table_lookup_defined [of ?log timing'] t keys
  obtain rows where "activity_data ?log = Inr rows"
    "map Activity rows = [''register'', ''check'', ''pay'']"
    by auto
  then show ?thesis by simp
qed

section \<open>Counts and percentages of the activity table\<close>




lemma activity_data_rows:
  assumes "activity_data event_log = Inr rows"
  shows "map (\<lambda>r. (Activity r, Count r)) rows = get_event_attribute_values event_log"
    and "\<forall>r \<in> set rows. Percentage r =
      py_round2 (float_mul (fl (of_nat (Count r) / of_nat (length (concat event_log)))) 100)"
    and "rows \<noteq> [] \<Longrightarrow> concat event_log \<noteq> []"
proof -
  from assms obtain timing where
    "activity_rows (get_event_attribute_values event_log)
       (get_event_attribute_values event_log) timing = Inr rows"
    by (auto simp: activity_data_def and_then_def split: sum.splits)
  from activity_rows_Inr [OF this]
  have m: "map (\<lambda>r. (Activity r, Count r)) rows = get_event_attribute_values event_log"
    and p: "\<forall>r \<in> set rows. Percentage r =
      py_round2 (float_mul (fl (of_nat (Count r) /
        of_nat (sum_list (map snd (get_event_attribute_values event_log))))) 100)"
    by blast+
  show "map (\<lambda>r. (Activity r, Count r)) rows = get_event_attribute_values event_log"
    by (rule m)
  show "\<forall>r \<in> set rows. Percentage r =
      py_round2 (float_mul (fl (of_nat (Count r) / of_nat (length (concat event_log)))) 100)"
    using p unfolding counts_sum .
  assume "rows \<noteq> []"
  then have "get_event_attribute_values event_log \<noteq> []"
    using m by auto
  from counts_total_nonzero [OF this] show "concat event_log \<noteq> []"
    unfolding counts_sum by simp
qed





section \<open>Order of the activity table\<close>

lemma half_shown: "py_round2 (float_mul (fl (1 / 2)) 100) = 50"
proof -
  have "py_round2 (float_mul (fl (1 / 2)) 100) = of_int 5000 / 100"
    by (rule percent_value) simp_all
  then show ?thesis by simp
qed

text \<open>
  Claim C9, as stated, fails: line 123 sorts by the count alone. In a log whose one trace
  is \<open>b\<close> followed by \<open>a\<close> both activities are counted once; with a sort that leaves the
  two equal keys in place the table lists \<open>b\<close> before \<open>a\<close>, the order of the keys of the
  frequency count.
\<close>

theorem activity_table_ties_counterexample:
  "activity_df stable_argsort
     [[\<lparr>concept_name = ''b'', time_timestamp = Some 0\<rparr>,
       \<lparr>concept_name = ''a'', time_timestamp = Some 3600\<rparr>]] =
   Inr [\<lparr>Activity = ''b'', Count = 1, Percentage = 50, Min_Duration_hours = 0,
         Avg_Duration_hours = 0, Max_Duration_hours = 0, Sample_Size = 0\<rparr>,
        \<lparr>Activity = ''a'', Count = 1, Percentage = 50, Min_Duration_hours = 1,
         Avg_Duration_hours = 1, Max_Duration_hours = 1, Sample_Size = 1\<rparr>] \<and>
   \<not> ranked_with_ties_by_label
     [\<lparr>Activity = ''b'', Count = 1, Percentage = 50, Min_Duration_hours = 0,
         Avg_Duration_hours = 0, Max_Duration_hours = 0, Sample_Size = 0\<rparr>,
      \<lparr>Activity = ''a'', Count = 1, Percentage = 50, Min_Duration_hours = 1,
         Avg_Duration_hours = 1, Max_Duration_hours = 1, Sample_Size = 1\<rparr>]"
  by (simp add: activity_df_def activity_data_def activity_timing_def and_then_def
      sorted_events_of_def stamp_def get_event_attribute_values_def py_div_def
      float_div_def [of _ 1] half_shown hours_shown py_min_def py_max_def Let_def
      sort_values_desc_def nargsort_desc_def stable_argsort_def ranked_with_ties_by_label_def)

text \<open>
  The failure does not hang on how the sort orders equal keys. The sort sees the column
  of counts alone, which is the same for the log above and for the log whose one trace is
  \<open>a\<close> followed by \<open>b\<close>; so whatever it does with two equal keys, for one of the two logs
  the table lists \<open>b\<close> before \<open>a\<close>.
\<close>

lemma activity_table_ties_any_sort:
  assumes "is_argsort argsort"
  shows "map_sum id (map (\<lambda>r. (Activity r, Count r)))
           (activity_df argsort
              [[\<lparr>concept_name = ''b'', time_timestamp = Some 0\<rparr>,
                \<lparr>concept_name = ''a'', time_timestamp = Some 3600\<rparr>]]) =
           Inr [(''b'', 1), (''a'', 1)] \<or>
         map_sum id (map (\<lambda>r. (Activity r, Count r)))
           (activity_df argsort
              [[\<lparr>concept_name = ''a'', time_timestamp = Some 0\<rparr>,
                \<lparr>concept_name = ''b'', time_timestamp = Some 3600\<rparr>]]) =
           Inr [(''b'', 1), (''a'', 1)]"
proof -
  from nargsort_desc_pair [OF assms, of 1 1]
  show ?thesis
  proof
    assume "nargsort_desc argsort [1, 1 :: nat] = [0, 1]"
    then have "map_sum id (map (\<lambda>r. (Activity r, Count r)))
           (activity_df argsort
              [[\<lparr>concept_name = ''b'', time_timestamp = Some 0\<rparr>,
                \<lparr>concept_name = ''a'', time_timestamp = Some 3600\<rparr>]]) =
           Inr [(''b'', 1), (''a'', 1)]"
      by (simp add: activity_df_def activity_data_def activity_timing_def and_then_def
          sorted_events_of_def stamp_def get_event_attribute_values_def py_div_def
          sort_values_desc_def Let_def)
    then show ?thesis ..
  next
    assume "nargsort_desc argsort [1, 1 :: nat] = [1, 0]"
    then have "map_sum id (map (\<lambda>r. (Activity r, Count r)))
           (activity_df argsort
              [[\<lparr>concept_name = ''a'', time_timestamp = Some 0\<rparr>,
                \<lparr>concept_name = ''b'', time_timestamp = Some 3600\<rparr>]]) =
           Inr [(''b'', 1), (''a'', 1)]"
      by (simp add: activity_df_def activity_data_def activity_timing_def and_then_def
          sorted_events_of_def stamp_def get_event_attribute_values_def py_div_def
          sort_values_desc_def Let_def)
    then show ?thesis ..
  qed
qed

text \<open>
  Claim C9, amended. Whatever order the sort gives to equal keys, the activity table,
  whenever it is produced, holds the rows of the activity records sorted non-increasing
  by count; nothing orders activities of equal count by their label. The table is
  produced for every log that has an event and whose events carry their timestamp.
\<close>

theorem activity_table_sorted_by_count:
  assumes "is_argsort argsort"
  shows "(activity_df argsort event_log = Inr table \<longrightarrow>
      sorted (rev (map Count table)) \<and>
      (\<exists>rows. activity_data event_log = Inr rows \<and> mset table = mset rows)) \<and>
   (concat event_log \<noteq> [] \<and>
    (\<forall>trace \<in> set event_log. \<forall>e \<in> set trace. time_timestamp e \<noteq> None) \<longrightarrow>
      (\<exists>table'. activity_df argsort event_log = Inr table'))"
proof (intro conjI impI)
  assume df: "activity_df argsort event_log = Inr table"
  then obtain rows where rows: "activity_data event_log = Inr rows"
    and table: "table = sort_values_desc argsort Count rows"
    by (auto simp: activity_df_def and_then_def split: sum.splits if_splits)
  show "sorted (rev (map Count table))"
    unfolding table using assms by (rule sorted_sort_values_desc)
  show "\<exists>rows. activity_data event_log = Inr rows \<and> mset table = mset rows"
    using rows unfolding table
    by (simp add: mset_sort_values_desc [OF assms])
next
  assume a: "concat event_log \<noteq> [] \<and>
    (\<forall>trace \<in> set event_log. \<forall>e \<in> set trace. time_timestamp e \<noteq> None)"
  then obtain timing where at: "activity_timing event_log = Inr timing"
    using activity_timing_result by blast
  from activity_rows_of_log [OF at] obtain rows where
    r: "activity_rows (get_event_attribute_values event_log)
          (get_event_attribute_values event_log) timing = Inr rows"
    by blast
  then have ad: "activity_data event_log = Inr rows"
    using at by (simp add: activity_data_def and_then_def)
  have "fst ` set (get_event_attribute_values event_log) \<noteq> {}"
    unfolding counts_keys using a by auto
  then have "get_event_attribute_values event_log \<noteq> []"
    by auto
  moreover have "map (\<lambda>r. (Activity r, Count r)) rows = get_event_attribute_values event_log"
    using activity_rows_Inr [OF r] by blast
  ultimately have "rows \<noteq> []"
    by auto
  then show "\<exists>table'. activity_df argsort event_log = Inr table'"
    using ad by (simp add: activity_df_def and_then_def)
qed

theorem activity_table_sorted_by_count_witness:
  "map_sum id (map (\<lambda>r. (Activity r, Count r)))
     (activity_df stable_argsort
        [[\<lparr>concept_name = ''b'', time_timestamp = Some 0\<rparr>,
          \<lparr>concept_name = ''c'', time_timestamp = Some 60\<rparr>,
          \<lparr>concept_name = ''a'', time_timestamp = Some 120\<rparr>,
          \<lparr>concept_name = ''c'', time_timestamp = Some 180\<rparr>,
          \<lparr>concept_name = ''a'', time_timestamp = Some 240\<rparr>,
          \<lparr>concept_name = ''a'', time_timestamp = Some 300\<rparr>]]) =
   Inr [(''a'', 3), (''c'', 2), (''b'', 1)]"
proof -
  let ?log = "[[\<lparr>concept_name = ''b'', time_timestamp = Some 0\<rparr>,
          \<lparr>concept_name = ''c'', time_timestamp = Some 60\<rparr>,
          \<lparr>concept_name = ''a'', time_timestamp = Some 120\<rparr>,
          \<lparr>concept_name = ''c'', time_timestamp = Some 180\<rparr>,
          \<lparr>concept_name = ''a'', time_timestamp = Some 240\<rparr>,
          \<lparr>concept_name = ''a'', time_timestamp = Some 300\<rparr>]]"
  note sorted_table = activity_table_sorted_by_count [OF stable_argsort_ok]
  have "concat ?log \<noteq> [] \<and>
    (\<forall>trace \<in> set ?log. \<forall>e \<in> set trace. time_timestamp e \<noteq> None)"
    by simp
  with sorted_table [of ?log] obtain table where
    df: "activity_df stable_argsort ?log = Inr table"
    by blast
  from sorted_table [of ?log table] df obtain rows where
    ad: "activity_data ?log = Inr rows"
    by blast
  have "map (\<lambda>r. (Activity r, Count r)) rows = [(''b'', 1), (''c'', 2), (''a'', 3)]"
    using activity_data_rows(1) [OF ad] by (simp add: get_event_attribute_values_def)
  then obtain rb rc ra where rows: "rows = [rb, rc, ra]"
    "Activity rb = ''b''" "Count rb = 1" "Activity rc = ''c''" "Count rc = 2"
    "Activity ra = ''a''" "Count ra = 3"
    by auto
  have "table = sort_values_desc stable_argsort Count rows"
    using df ad by (auto simp: activity_df_def and_then_def split: if_splits)
  then have "table = [ra, rc, rb]"
    using rows by (simp add: sort_values_desc_def nargsort_desc_def stable_argsort_def)
  then show ?thesis
    using df rows by simp
qed

section \<open>Variants and their mean duration\<close>













section \<open>The variant filter\<close>

text \<open>
  Claim C7 does not hold of the code when an activity label contains the separator. The
  log below has one trace, of variant \<open>[a -> b, c]\<close> (the first label contains the
  separator). The selection box offers the joined text \<open>a -> b -> c\<close>; line 186 splits it
  into \<open>[a, b, c]\<close>, a variant the log does not have, and the filtered log is empty, while
  filtering by the variant key itself returns the trace.
\<close>

theorem variant_filter_separator_in_label:
  "map Variant (variant_stats
     [[\<lparr>concept_name = ''a'' @ arrow @ ''b'', time_timestamp = Some 0\<rparr>,
       \<lparr>concept_name = ''c'', time_timestamp = Some 60\<rparr>]]) =
     [''a'' @ arrow @ ''b'' @ arrow @ ''c''] \<and>
   py_split (''a'' @ arrow @ ''b'' @ arrow @ ''c'') arrow = [''a'', ''b'', ''c''] \<and>
   filtered_log
     [[\<lparr>concept_name = ''a'' @ arrow @ ''b'', time_timestamp = Some 0\<rparr>,
       \<lparr>concept_name = ''c'', time_timestamp = Some 60\<rparr>]]
     (''a'' @ arrow @ ''b'' @ arrow @ ''c'') = [] \<and>
   filter_variants
     [[\<lparr>concept_name = ''a'' @ arrow @ ''b'', time_timestamp = Some 0\<rparr>,
       \<lparr>concept_name = ''c'', time_timestamp = Some 60\<rparr>]]
     [[''a'' @ arrow @ ''b'', ''c'']] =
     [[\<lparr>concept_name = ''a'' @ arrow @ ''b'', time_timestamp = Some 0\<rparr>,
       \<lparr>concept_name = ''c'', time_timestamp = Some 60\<rparr>]]"
  by (simp add: variant_stats_def get_variants_as_tuples_def filtered_log_def
      filter_variants_def py_split_def arrow_def)

section \<open>Trace Builder\<close>

lemma filter_format_dataframe:
  "filter P (format_dataframe df) = format_dataframe (filter P df)"
  unfolding format_dataframe_def by (simp add: filter_sort)

lemma case_rows_format_dataframe:
  "filter (\<lambda>r. rec_case_id r = c) (format_dataframe df) =
   sort_key rec_timestamp (filter (\<lambda>r. rec_case_id r = c) df)"
  unfolding format_dataframe_def by (simp add: sort_key_stable filter_sort)

lemma case_size_format_dataframe [simp]:
  "case_size (format_dataframe df) c = case_size df c"
  by (simp add: case_size_def case_rows_format_dataframe)

lemma set_format_dataframe [simp]: "set (format_dataframe df) = set df"
  by (simp add: format_dataframe_def)

lemma filter_case_size_format:
  "filter_case_size (format_dataframe df) 2 None =
   filter (\<lambda>r. 2 \<le> case_size df (rec_case_id r)) (format_dataframe df)"
  by (simp add: filter_case_size_def)

lemma case_rows_kept:
  "filter (\<lambda>r. rec_case_id r = c) (filter_case_size (format_dataframe df) 2 None) =
   (if 2 \<le> case_size df c
    then sort_key rec_timestamp (filter (\<lambda>r. rec_case_id r = c) df) else [])"
proof -
  have "filter (\<lambda>r. rec_case_id r = c) (filter_case_size (format_dataframe df) 2 None) =
      filter (\<lambda>r. 2 \<le> case_size df (rec_case_id r) \<and> rec_case_id r = c) (format_dataframe df)"
    by (simp add: filter_case_size_format)
  also have "\<dots> = filter (\<lambda>r. 2 \<le> case_size df c \<and> rec_case_id r = c) (format_dataframe df)"
    by (rule filter_cong) auto
  also have "\<dots> = (if 2 \<le> case_size df c
      then filter (\<lambda>r. rec_case_id r = c) (format_dataframe df) else [])"
    by simp
  finally show ?thesis
    by (simp add: case_rows_format_dataframe)
qed

lemma kept_case_ids:
  "rec_case_id ` set (filter_case_size (format_dataframe df) 2 None) =
   {c. 2 \<le> case_size df c}"
proof (intro set_eqI iffI)
  fix c assume "c \<in> rec_case_id ` set (filter_case_size (format_dataframe df) 2 None)"
  then show "c \<in> {c. 2 \<le> case_size df c}"
    by (auto simp: filter_case_size_format)
next
  fix c assume "c \<in> {c. 2 \<le> case_size df c}"
  then have c: "2 \<le> case_size df c" by simp
  then have "filter (\<lambda>r. rec_case_id r = c) df \<noteq> []"
    by (auto simp: case_size_def)
  then obtain r where "r \<in> set df" "rec_case_id r = c"
    by (auto simp: filter_empty_conv)
  then have "r \<in> set (filter_case_size (format_dataframe df) 2 None)"
    using c by (simp add: filter_case_size_format)
  then show "c \<in> rec_case_id ` set (filter_case_size (format_dataframe df) 2 None)"
    using \<open>rec_case_id r = c\<close> by blast
qed

lemma trace_builder_traces:
  assumes "(c, trace) \<in> set (trace_builder df)"
  shows "2 \<le> case_size df c"
    and "trace = map to_event (sort_key rec_timestamp (filter (\<lambda>r. rec_case_id r = c) df))"
proof -
  let ?G = "filter_case_size (format_dataframe df) 2 None"
  from assms have c: "c \<in> rec_case_id ` set ?G"
    and t: "trace = map to_event (filter (\<lambda>r. rec_case_id r = c) ?G)"
    by (auto simp: trace_builder_def log_converter_apply_def)
  from c show size: "2 \<le> case_size df c"
    unfolding kept_case_ids by simp
  show "trace = map to_event (sort_key rec_timestamp (filter (\<lambda>r. rec_case_id r = c) df))"
    unfolding t case_rows_kept using size by simp
qed

lemma trace_builder_case_ids:
  "distinct (map fst (trace_builder df))"
  "fst ` set (trace_builder df) = {c. 2 \<le> case_size df c}"
proof -
  let ?G = "filter_case_size (format_dataframe df) 2 None"
  have m: "map fst (trace_builder df) = remdups (map rec_case_id ?G)"
    by (simp add: trace_builder_def log_converter_apply_def comp_def)
  show "distinct (map fst (trace_builder df))"
    unfolding m by simp
  have "set (map fst (trace_builder df)) = rec_case_id ` set ?G"
    unfolding m by simp
  then show "fst ` set (trace_builder df) = {c. 2 \<le> case_size df c}"
    unfolding kept_case_ids by simp
qed

lemma stamp_to_event: "map stamp (map to_event rs) = map rec_timestamp rs"
  by (simp add: to_event_def stamp_def comp_def)

lemma trace_builder_without_small_cases:
  "trace_builder (filter (\<lambda>r. 2 \<le> case_size df (rec_case_id r)) df) = trace_builder df"
proof -
  let ?P = "\<lambda>r. 2 \<le> case_size df (rec_case_id r)"
  have size: "case_size (filter ?P df) c = (if 2 \<le> case_size df c then case_size df c else 0)"
    for c
  proof -
    have "filter (\<lambda>r. rec_case_id r = c) (filter ?P df) =
        filter (\<lambda>r. 2 \<le> case_size df c \<and> rec_case_id r = c) df"
      unfolding filter_filter by (rule filter_cong) auto
    then show ?thesis
      by (simp add: case_size_def)
  qed
  have "filter_case_size (format_dataframe (filter ?P df)) 2 None =
      filter (\<lambda>r. 2 \<le> case_size (filter ?P df) (rec_case_id r)) (filter ?P (format_dataframe df))"
    by (simp add: filter_case_size_format filter_format_dataframe)
  also have "\<dots> = filter (\<lambda>r. ?P r \<and> 2 \<le> case_size (filter ?P df) (rec_case_id r))
      (format_dataframe df)"
    by (simp add: conj_commute)
  also have "\<dots> = filter ?P (format_dataframe df)"
    by (rule filter_cong) (auto simp: size)
  finally show ?thesis
    by (simp add: trace_builder_def filter_case_size_format)
qed

text \<open>
  Claim C1. Every trace of the event log built from a collection of raw records holds
  the events of one case in non-decreasing order of their timestamps, and has at least
  2 events. The cases of the log are exactly those with at least 2 records: a case with
  fewer is dropped, and the event log, from which alone every analyzer computes, is the
  same as if the records of the dropped cases had not been in the input.
\<close>

theorem trace_builder_sorted_min_size:
  "(\<forall>(c, trace) \<in> set (trace_builder df).
      trace = map to_event (sort_key rec_timestamp (filter (\<lambda>r. rec_case_id r = c) df)) \<and>
      (\<forall>e \<in> set trace. time_timestamp e \<noteq> None) \<and>
      sorted (map stamp trace) \<and>
      2 \<le> length trace) \<and>
   (\<forall>trace \<in> set (event_log_of df). sorted (map stamp trace) \<and> 2 \<le> length trace) \<and>
   distinct (map fst (trace_builder df)) \<and>
   fst ` set (trace_builder df) = {c. 2 \<le> case_size df c} \<and>
   (\<forall>c. case_size df c < 2 \<longrightarrow> c \<notin> fst ` set (trace_builder df)) \<and>
   event_log_of (filter (\<lambda>r. 2 \<le> case_size df (rec_case_id r)) df) = event_log_of df"
proof -
  have traces: "trace = map to_event (sort_key rec_timestamp (filter (\<lambda>r. rec_case_id r = c) df)) \<and>
      (\<forall>e \<in> set trace. time_timestamp e \<noteq> None) \<and>
      sorted (map stamp trace) \<and> 2 \<le> length trace"
    if "(c, trace) \<in> set (trace_builder df)" for c trace
  proof -
    note t = trace_builder_traces(2) [OF that]
    have "length trace = case_size df c"
      unfolding t by (simp add: case_size_def)
    then have "2 \<le> length trace"
      using trace_builder_traces(1) [OF that] by simp
    moreover have "sorted (map stamp trace)"
      unfolding t stamp_to_event by simp
    moreover have "\<forall>e \<in> set trace. time_timestamp e \<noteq> None"
      unfolding t by (simp add: to_event_def)
    ultimately show ?thesis
      using t by blast
  qed
  have "\<forall>(c, trace) \<in> set (trace_builder df).
      trace = map to_event (sort_key rec_timestamp (filter (\<lambda>r. rec_case_id r = c) df)) \<and>
      (\<forall>e \<in> set trace. time_timestamp e \<noteq> None) \<and>
      sorted (map stamp trace) \<and>
      2 \<le> length trace"
    using traces by blast
  moreover have "\<forall>trace \<in> set (event_log_of df). sorted (map stamp trace) \<and> 2 \<le> length trace"
    using traces by (auto simp: event_log_of_def)
  moreover have "\<forall>c. case_size df c < 2 \<longrightarrow> c \<notin> fst ` set (trace_builder df)"
    unfolding trace_builder_case_ids by simp
  moreover have
    "event_log_of (filter (\<lambda>r. 2 \<le> case_size df (rec_case_id r)) df) = event_log_of df"
    by (simp add: event_log_of_def trace_builder_without_small_cases)
  ultimately show ?thesis
    using trace_builder_case_ids [of df] by blast
qed

theorem trace_builder_sorted_min_size_witness:
  "trace_builder
     [\<lparr>rec_case_id = ''B'', rec_activity = ''y'', rec_timestamp = 5\<rparr>,
      \<lparr>rec_case_id = ''A'', rec_activity = ''x'', rec_timestamp = 7\<rparr>,
      \<lparr>rec_case_id = ''B'', rec_activity = ''x'', rec_timestamp = 2\<rparr>] =
   [(''B'', [\<lparr>concept_name = ''x'', time_timestamp = Some 2\<rparr>,
             \<lparr>concept_name = ''y'', time_timestamp = Some 5\<rparr>])] \<and>
   event_log_of
     [\<lparr>rec_case_id = ''B'', rec_activity = ''y'', rec_timestamp = 5\<rparr>,
      \<lparr>rec_case_id = ''B'', rec_activity = ''x'', rec_timestamp = 2\<rparr>] =
   event_log_of
     [\<lparr>rec_case_id = ''B'', rec_activity = ''y'', rec_timestamp = 5\<rparr>,
      \<lparr>rec_case_id = ''A'', rec_activity = ''x'', rec_timestamp = 7\<rparr>,
      \<lparr>rec_case_id = ''B'', rec_activity = ''x'', rec_timestamp = 2\<rparr>]"
proof -
  let ?df = "[\<lparr>rec_case_id = ''B'', rec_activity = ''y'', rec_timestamp = 5\<rparr>,
      \<lparr>rec_case_id = ''A'', rec_activity = ''x'', rec_timestamp = 7\<rparr>,
      \<lparr>rec_case_id = ''B'', rec_activity = ''x'', rec_timestamp = 2\<rparr>]"
  have run: "trace_builder ?df =
      [(''B'', [\<lparr>concept_name = ''x'', time_timestamp = Some 2\<rparr>,
                \<lparr>concept_name = ''y'', time_timestamp = Some 5\<rparr>])]"
    by (simp add: trace_builder_def log_converter_apply_def filter_case_size_def
        format_dataframe_def case_size_def to_event_def)
  have "filter (\<lambda>r. 2 \<le> case_size ?df (rec_case_id r)) ?df =
      [\<lparr>rec_case_id = ''B'', rec_activity = ''y'', rec_timestamp = 5\<rparr>,
       \<lparr>rec_case_id = ''B'', rec_activity = ''x'', rec_timestamp = 2\<rparr>]"
    by (simp add: case_size_def)
  with trace_builder_sorted_min_size [of ?df] run show ?thesis
    by simp
qed

end
